theory Spec2Isabelle
  imports Complex_Main
begin

section \<open>Data model\<close>

text \<open>
  The embedding follows \<^verbatim>\<open>analyze_and_clean_excel_file\<close> of
  \<^verbatim>\<open>src/analyze_and_clean_excel.py\<close> from the point where the table has been read
  (line 31) to the returned pair (line 115).

  A Python string is a list of code points; here a \<^typ>\<open>char\<close> stands for one code point
  below 256 (Latin-1). A data frame is the ordered list of its labelled columns. A column
  carries its dtype together with its values: \<^verbatim>\<open>object\<close> columns hold text or a missing
  value, \<^verbatim>\<open>float64\<close> columns hold a number or NaN, \<^verbatim>\<open>datetime64\<close> columns hold a
  timestamp or NaT; \<^verbatim>\<open>int64\<close> and \<^verbatim>\<open>bool\<close> columns have no missing value.
  Floating-point numbers are only ever compared for equality by the code, so their type is
  left as the parameter \<^typ>\<open>'f\<close>.

  The code selects columns by label (\<^verbatim>\<open>df[col]\<close>, \<^verbatim>\<open>df[cols]\<close>). A label denotes
  one column when the labels are distinct, which is what the lookups below compute; the
  properties of the stages that select by label are stated for tables with distinct labels.
  Line 36 is read as the \<^verbatim>\<open>if\<close> statement it is meant to be (its colon is missing
  in the source).
\<close>

datatype dtype = Object | Int64 | Float64 | Datetime64 | Boolean

record timestamp =
  year :: nat
  month :: nat
  day :: nat
  time_of_day :: nat

text \<open>
  A pandas timestamp lies between the years 1677 and 2262; its month and day are those of
  a calendar date.
\<close>

definition valid_timestamp :: "timestamp \<Rightarrow> bool" where
  "valid_timestamp t =
     (1 \<le> month t \<and> month t \<le> 12 \<and> 1 \<le> day t \<and> day t \<le> 31
      \<and> 1677 \<le> year t \<and> year t \<le> 2262)"

datatype 'f series =
    ObjectS "string option list"
  | Int64S "int list"
  | Float64S "'f option list"
  | DatetimeS "timestamp option list"
  | BoolS "bool list"

datatype 'f cell =
    StrCell "string option"
  | IntCell int
  | FloatCell "'f option"
  | TimeCell "timestamp option"
  | BoolCell bool

type_synonym 'f dataframe = "(string \<times> 'f series) list"

fun dtype_of :: "'f series \<Rightarrow> dtype" where
  "dtype_of (ObjectS _) = Object"
| "dtype_of (Int64S _) = Int64"
| "dtype_of (Float64S _) = Float64"
| "dtype_of (DatetimeS _) = Datetime64"
| "dtype_of (BoolS _) = Boolean"

fun cells :: "'f series \<Rightarrow> 'f cell list" where
  "cells (ObjectS xs) = map StrCell xs"
| "cells (Int64S xs) = map IntCell xs"
| "cells (Float64S xs) = map FloatCell xs"
| "cells (DatetimeS xs) = map TimeCell xs"
| "cells (BoolS xs) = map BoolCell xs"

definition columns :: "'f dataframe \<Rightarrow> string list" where
  "columns df = map fst df"

definition series_len :: "'f series \<Rightarrow> nat" where
  "series_len s = length (cells s)"

definition nrows :: "'f dataframe \<Rightarrow> nat" where
  "nrows df = (case df of [] \<Rightarrow> 0 | c # _ \<Rightarrow> series_len (snd c))"

definition ncols :: "'f dataframe \<Rightarrow> nat" where
  "ncols df = length df"

text \<open>A table is well formed when all its columns have the same length.\<close>

definition wf_table :: "'f dataframe \<Rightarrow> bool" where
  "wf_table df = list_all (\<lambda>c. series_len (snd c) = nrows df) df"

section \<open>Column names (lines 34--46)\<close>

definition is_upper :: "char \<Rightarrow> bool" where
  "is_upper c = (let n = (of_char c :: nat) in 65 \<le> n \<and> n \<le> 90)"

definition is_lower :: "char \<Rightarrow> bool" where
  "is_lower c = (let n = (of_char c :: nat) in 97 \<le> n \<and> n \<le> 122)"

text \<open>
  \<^verbatim>\<open>re.sub('(?<!^)(?=[A-Z][a-z])', '_', col)\<close>: the pattern matches the empty string
  at every position that is not the start of the string and is followed by an upper-case
  ASCII letter and a lower-case ASCII letter; each match is replaced by an underscore.
\<close>

fun re_sub_tail :: "string \<Rightarrow> string" where
  "re_sub_tail (c # d # cs) =
     (if is_upper c \<and> is_lower d then CHR ''_'' # c # re_sub_tail (d # cs)
      else c # re_sub_tail (d # cs))"
| "re_sub_tail cs = cs"

definition re_sub :: "string \<Rightarrow> string" where
  "re_sub col = (case col of [] \<Rightarrow> [] | c # cs \<Rightarrow> c # re_sub_tail cs)"

text \<open>\<^verbatim>\<open>str.lower\<close> on code points below 256.\<close>

definition lower_char :: "char \<Rightarrow> char" where
  "lower_char c =
     (let n = (of_char c :: nat) in
      if (65 \<le> n \<and> n \<le> 90) \<or> (192 \<le> n \<and> n \<le> 222 \<and> n \<noteq> 215)
      then char_of (n + 32) else c)"

definition lower :: "string \<Rightarrow> string" where
  "lower s = map lower_char s"

definition replace_spaces :: "string \<Rightarrow> string" where
  "replace_spaces s = map (\<lambda>c. if c = CHR '' '' then CHR ''_'' else c) s"

definition snake_case :: "string \<Rightarrow> string" where
  "snake_case col = replace_spaces (lower (re_sub col))"

text \<open>
  Lines 36--40. The list comprehension of line 37 is not empty when the test of line 36
  holds, so its element 0 exists.
\<close>

definition new_col_name :: "(string \<times> string) list \<Rightarrow> string \<Rightarrow> string" where
  "new_col_name exceptions col =
     (if exceptions \<noteq> [] \<and> col \<in> set (map fst exceptions)
      then (case map snd (filter (\<lambda>e. fst e = col) exceptions) of
              t # _ \<Rightarrow> t | [] \<Rightarrow> col)
      else snake_case col)"

text \<open>Lines 43--46: \<^verbatim>\<open>df.rename\<close> renames every column labelled \<^verbatim>\<open>old_col\<close>.\<close>

fun rename_exceptions :: "(string \<times> string) list \<Rightarrow> string list \<Rightarrow> string list" where
  "rename_exceptions [] cols = cols"
| "rename_exceptions ((old_col, new_col) # es) cols =
     rename_exceptions es
       (if old_col \<in> set cols then map (\<lambda>c. if c = old_col then new_col else c) cols
        else cols)"

definition format_column_names :: "(string \<times> string) list \<Rightarrow> string list \<Rightarrow> string list" where
  "format_column_names exceptions cols =
     rename_exceptions exceptions (map (new_col_name exceptions) cols)"

definition set_columns :: "string list \<Rightarrow> 'f dataframe \<Rightarrow> 'f dataframe" where
  "set_columns names df = map (\<lambda>(n, c). (n, snd c)) (zip names df)"

section \<open>Library functions taken as parameters\<close>

text \<open>
  The text that pandas prints for a Series (\<^verbatim>\<open>str(missing_values[...])\<close> on line 52,
  \<^verbatim>\<open>str(dtypes)\<close> on line 65) and the table computed by \<^verbatim>\<open>DataFrame.describe\<close>
  (line 101) belong to pandas, not to this program. They are parameters of the model.
\<close>

record ('f, 's) pandas =
  str_counts :: "(string \<times> nat) list \<Rightarrow> string"
  str_dtypes :: "(string \<times> dtype) list \<Rightarrow> string"
  describe :: "'f dataframe \<Rightarrow> 's"

section \<open>Missing values and duplicates (lines 48--65)\<close>

fun isnull :: "'f cell \<Rightarrow> bool" where
  "isnull (StrCell x) = (x = None)"
| "isnull (IntCell x) = False"
| "isnull (FloatCell x) = (x = None)"
| "isnull (TimeCell x) = (x = None)"
| "isnull (BoolCell x) = False"

text \<open>\<^verbatim>\<open>df.isnull().sum()\<close>: for each column, the number of its missing entries.\<close>

definition isnull_sum :: "'f series \<Rightarrow> nat" where
  "isnull_sum s = length (filter isnull (cells s))"

definition missing_values :: "'f dataframe \<Rightarrow> (string \<times> nat) list" where
  "missing_values df = map (\<lambda>(n, s). (n, isnull_sum s)) df"

definition check_missing_values :: "('f, 's) pandas \<Rightarrow> 'f dataframe \<Rightarrow> string option" where
  "check_missing_values pd df =
     (if sum_list (map snd (missing_values df)) > 0
      then Some (''Warning: the following columns have missing values:'' @ [CHR 0x0A]
                 @ str_counts pd (filter (\<lambda>(n, k). k > 0) (missing_values df)))
      else None)"

definition row :: "'f dataframe \<Rightarrow> nat \<Rightarrow> 'f cell list" where
  "row df i = map (\<lambda>(n, s). cells s ! i) df"

definition rows :: "'f dataframe \<Rightarrow> 'f cell list list" where
  "rows df = map (row df) [0..<nrows df]"

text \<open>
  \<^verbatim>\<open>df.duplicated()\<close> with its default \<^verbatim>\<open>keep='first'\<close> marks a row when an equal row
  has been seen before it; missing values compare equal to each other.
\<close>

fun duplicated_from :: "'a list \<Rightarrow> 'a list \<Rightarrow> bool list" where
  "duplicated_from seen [] = []"
| "duplicated_from seen (r # rs) = (r \<in> set seen) # duplicated_from (r # seen) rs"

definition duplicated :: "'f dataframe \<Rightarrow> bool list" where
  "duplicated df = duplicated_from [] (rows df)"

definition duplicates :: "'f dataframe \<Rightarrow> nat" where
  "duplicates df = length (filter (\<lambda>b. b) (duplicated df))"

text \<open>\<^verbatim>\<open>str\<close> of a non-negative integer: its decimal digits.\<close>

definition digit :: "nat \<Rightarrow> char" where
  "digit n = ''0123456789'' ! (n mod 10)"

function str_nat :: "nat \<Rightarrow> string" where
  "str_nat n = (if n < 10 then [digit n] else str_nat (n div 10) @ [digit (n mod 10)])"
  by pat_completeness auto
termination
  by (relation "measure (\<lambda>n. n)") auto

definition check_duplicates :: "'f dataframe \<Rightarrow> string option" where
  "check_duplicates df =
     (if duplicates df > 0
      then Some (''Warning: there are '' @ str_nat (duplicates df)
                 @ '' duplicate rows in the dataset.'')
      else None)"

definition dtypes :: "'f dataframe \<Rightarrow> (string \<times> dtype) list" where
  "dtypes df = map (\<lambda>(n, s). (n, dtype_of s)) df"

definition check_data_types :: "('f, 's) pandas \<Rightarrow> 'f dataframe \<Rightarrow> string" where
  "check_data_types pd df = ''Data types:'' @ [CHR 0x0A] @ str_dtypes pd (dtypes df)"

section \<open>Trailing whitespace (lines 67--69)\<close>

text \<open>
  \<^verbatim>\<open>str.rstrip()\<close> without argument removes trailing whitespace; the whitespace code
  points below 256 are 9--13, 28--32, 133 and 160.
\<close>

definition is_space :: "char \<Rightarrow> bool" where
  "is_space c =
     (let n = (of_char c :: nat) in
      (9 \<le> n \<and> n \<le> 13) \<or> (28 \<le> n \<and> n \<le> 32) \<or> n = 133 \<or> n = 160)"

definition rstrip :: "string \<Rightarrow> string" where
  "rstrip s = rev (dropWhile is_space (rev s))"

text \<open>\<^verbatim>\<open>x.str.rstrip()\<close>: element-wise, a missing value stays missing.\<close>

definition str_rstrip :: "string option list \<Rightarrow> string option list" where
  "str_rstrip xs = map (map_option rstrip) xs"

text \<open>The function applied to each selected column on line 69.\<close>

fun rstrip_if_object :: "'f series \<Rightarrow> 'f series" where
  "rstrip_if_object (ObjectS xs) = ObjectS (str_rstrip xs)"
| "rstrip_if_object x = x"

definition select_dtypes :: "dtype list \<Rightarrow> 'f dataframe \<Rightarrow> 'f dataframe" where
  "select_dtypes include df = filter (\<lambda>(n, s). dtype_of s \<in> set include) df"

definition rstrip_string_cols :: "'f dataframe \<Rightarrow> 'f dataframe" where
  "rstrip_string_cols df =
     (let string_cols = columns (select_dtypes [Object] df)
      in map (\<lambda>(n, s). if n \<in> set string_cols then (n, rstrip_if_object s) else (n, s)) df)"

section \<open>Dates (lines 71--74)\<close>

definition zero_pad :: "nat \<Rightarrow> string \<Rightarrow> string" where
  "zero_pad w s = replicate (w - length s) CHR ''0'' @ s"

text \<open>\<^verbatim>\<open>strftime('%m/%d/%Y')\<close> of one timestamp.\<close>

definition strftime :: "timestamp \<Rightarrow> string" where
  "strftime t =
     zero_pad 2 (str_nat (month t)) @ ''/'' @ zero_pad 2 (str_nat (day t)) @ ''/''
     @ zero_pad 4 (str_nat (year t))"

text \<open>\<^verbatim>\<open>.dt.strftime\<close> gives an \<^verbatim>\<open>object\<close> column; NaT becomes a missing value.\<close>

definition dt_strftime :: "timestamp option list \<Rightarrow> string option list" where
  "dt_strftime xs = map (map_option strftime) xs"

text \<open>
  \<^verbatim>\<open>df[col] = df[col].dt.strftime(...)\<close>. The label \<^verbatim>\<open>col\<close> is taken from the
  table's own datetime columns, so it is present; with distinct labels it denotes one
  column, of dtype datetime64.
\<close>

definition format_date_col :: "string \<Rightarrow> 'f dataframe \<Rightarrow> 'f dataframe" where
  "format_date_col col df =
     (case map_of df col of
        Some (DatetimeS xs) \<Rightarrow>
          map (\<lambda>(n, s). if n = col then (n, ObjectS (dt_strftime xs)) else (n, s)) df
      | _ \<Rightarrow> df)"

definition format_date_cols :: "'f dataframe \<Rightarrow> 'f dataframe" where
  "format_date_cols df =
     (let date_cols = columns (select_dtypes [Datetime64] df)
      in foldl (\<lambda>d col. format_date_col col d) df date_cols)"

section \<open>Outliers, distributions and summary (lines 76--103)\<close>

text \<open>
  The requests sent to matplotlib and seaborn, in the order in which they are issued:
  \<^verbatim>\<open>plt.boxplot(values)\<close>, \<^verbatim>\<open>sns.distplot(series)\<close>, \<^verbatim>\<open>plt.title(text)\<close> and
  \<^verbatim>\<open>plt.show()\<close>.
\<close>

datatype 'f call =
    Boxplot "'f series list"
  | Distplot "'f series"
  | Title string
  | Show

text \<open>\<^verbatim>\<open>len(df[col].unique())\<close>: a missing value counts as one of the distinct values.\<close>

definition unique_len :: "'f series \<Rightarrow> nat" where
  "unique_len s = length (remdups (cells s))"

text \<open>
  \<^verbatim>\<open>df[cols]\<close> for a list of labels: the columns in the order of the list. Every label
  used below is one of the table's own, so the lookup does not fail.
\<close>

definition getitems :: "'f dataframe \<Rightarrow> string list \<Rightarrow> 'f dataframe" where
  "getitems df cols =
     concat (map (\<lambda>col. case map_of df col of Some s \<Rightarrow> [(col, s)] | None \<Rightarrow> []) cols)"

fun join :: "string \<Rightarrow> string list \<Rightarrow> string" where
  "join sep [] = []"
| "join sep [x] = x"
| "join sep (x # y # ys) = x @ sep @ join sep (y # ys)"

text \<open>Line 81.\<close>

definition more_than_10_unique :: "'f dataframe \<Rightarrow> string list \<Rightarrow> string list" where
  "more_than_10_unique df cols =
     filter (\<lambda>col. case map_of df col of Some s \<Rightarrow> unique_len s > 10 | None \<Rightarrow> False) cols"

text \<open>
  Lines 77--87: the value of \<^verbatim>\<open>numerical_columns\<close> after the first conditional, the
  box-plot title and the requests issued.
\<close>

definition box_plot :: "'f dataframe \<Rightarrow> string list \<times> string option \<times> 'f call list" where
  "box_plot df =
     (let numerical_columns = columns (select_dtypes [Int64, Float64] df)
      in if length numerical_columns > 0
         then (let numerical_columns = more_than_10_unique df numerical_columns;
                   box_plot_title = ''Box plot of data values for ''
                                    @ join '', '' numerical_columns
               in (numerical_columns, Some box_plot_title,
                   [Boxplot (map snd (getitems df numerical_columns)),
                    Title box_plot_title, Show]))
         else (numerical_columns, None, []))"

text \<open>Lines 90--97.\<close>

definition dist_plots :: "'f dataframe \<Rightarrow> string list \<Rightarrow> string option \<times> 'f call list" where
  "dist_plots df numerical_columns =
     (if length numerical_columns > 0
      then (Some ''Distribution plots for numerical columns'',
            concat (map (\<lambda>col. case map_of df col of
                                  Some s \<Rightarrow> [Distplot s, Title (''Distribution of '' @ col), Show]
                                | None \<Rightarrow> [])
                        numerical_columns))
      else (None, []))"

text \<open>Lines 100--103.\<close>

definition summary :: "('f, 's) pandas \<Rightarrow> 'f dataframe \<Rightarrow> string list \<Rightarrow> 's option" where
  "summary pd df numerical_columns =
     (if length numerical_columns > 0
      then Some (describe pd (getitems df numerical_columns))
      else None)"

section \<open>The whole function\<close>

record 's results =
  missing_values_warning :: "string option"
  duplicates_warning :: "string option"
  data_types :: string
  box_plot_title :: "string option"
  dist_plots_title :: "string option"
  dataframe_summary :: "'s option"

text \<open>Lines 34--46 on the table.\<close>

definition format_columns :: "(string \<times> string) list \<Rightarrow> 'f dataframe \<Rightarrow> 'f dataframe" where
  "format_columns exceptions df = set_columns (format_column_names exceptions (columns df)) df"

text \<open>Lines 34--74: the table that is returned.\<close>

definition clean :: "(string \<times> string) list \<Rightarrow> 'f dataframe \<Rightarrow> 'f dataframe" where
  "clean exceptions df = format_date_cols (rstrip_string_cols (format_columns exceptions df))"

text \<open>
  Lines 31--115, from the table that \<^verbatim>\<open>pd.read_excel\<close> returned. The result is the
  cleaned table, the dictionary of results and the plotting requests issued on the way.
\<close>

definition analyze_and_clean_excel_file ::
  "('f, 's) pandas \<Rightarrow> (string \<times> string) list \<Rightarrow> 'f dataframe
   \<Rightarrow> 'f dataframe \<times> 's results \<times> 'f call list" where
  "analyze_and_clean_excel_file pd exceptions df0 =
     (let df = format_columns exceptions df0;
          missing_values_warning = check_missing_values pd df;
          duplicates_warning = check_duplicates df;
          data_types = check_data_types pd df;
          df = rstrip_string_cols df;
          df = format_date_cols df;
          (numerical_columns, box_plot_title, box_calls) = box_plot df;
          (dist_plots_title, dist_calls) = dist_plots df numerical_columns;
          df_summary = summary pd df numerical_columns
      in (df,
          \<lparr>missing_values_warning = missing_values_warning,
           duplicates_warning = duplicates_warning,
           data_types = data_types,
           box_plot_title = box_plot_title,
           dist_plots_title = dist_plots_title,
           dataframe_summary = df_summary\<rparr>,
          box_calls @ dist_calls))"

text \<open>The outlier selection: \<^verbatim>\<open>numerical_columns\<close> as it stands from line 87 on.\<close>

definition outlier_selection :: "'f dataframe \<Rightarrow> string list" where
  "outlier_selection df = fst (box_plot df)"

text \<open>The default value of \<^verbatim>\<open>exceptions\<close>.\<close>

definition default_exceptions :: "(string \<times> string) list" where
  "default_exceptions = [(''EXAMPLEID'', ''example_id'')]"

section \<open>Functions used to state the properties\<close>

text \<open>What the date stage does to one column, whatever its label.\<close>

fun date_to_text :: "'f series \<Rightarrow> 'f series" where
  "date_to_text (DatetimeS xs) = ObjectS (dt_strftime xs)"
| "date_to_text s = s"

text \<open>What the second pass over the exceptions (lines 43--46) does to one label.\<close>

fun rename_label :: "(string \<times> string) list \<Rightarrow> string \<Rightarrow> string" where
  "rename_label [] c = c"
| "rename_label ((old_col, new_col) # es) c =
     rename_label es (if c = old_col then new_col else c)"

text \<open>
  The columns that are numeric and have more than ten distinct entries, with their data.
\<close>

definition selected :: "'f dataframe \<Rightarrow> 'f dataframe" where
  "selected df =
     filter (\<lambda>(n, s). dtype_of s \<in> {Int64, Float64} \<and> card (set (cells s)) > 10) df"

text \<open>
  Rows \<open>j\<close> and \<open>i\<close> of a table are equal when every column has equal entries at
  the two positions; two missing entries are equal.
\<close>

definition same_row :: "'f dataframe \<Rightarrow> nat \<Rightarrow> nat \<Rightarrow> bool" where
  "same_row df j i =
     (\<forall>c \<in> set df.
        case snd c of
          ObjectS xs \<Rightarrow> xs ! j = xs ! i
        | Int64S xs \<Rightarrow> xs ! j = xs ! i
        | Float64S xs \<Rightarrow> xs ! j = xs ! i
        | DatetimeS xs \<Rightarrow> xs ! j = xs ! i
        | BoolS xs \<Rightarrow> xs ! j = xs ! i)"

section \<open>Properties\<close>

subsection \<open>Column labels\<close>

lemma length_rename_exceptions: "length (rename_exceptions es cols) = length cols"
  by (induction es cols rule: rename_exceptions.induct) auto

lemma length_format_column_names: "length (format_column_names es cols) = length cols"
  by (simp add: format_column_names_def length_rename_exceptions)

lemma columns_set_columns: "length names = length df \<Longrightarrow> columns (set_columns names df) = names"
  by (induction names df rule: list_induct2) (auto simp: set_columns_def columns_def)

lemma data_set_columns: "length names = length df \<Longrightarrow> map snd (set_columns names df) = map snd df"
  by (induction names df rule: list_induct2) (auto simp: set_columns_def)

lemma columns_format_columns: "columns (format_columns es df) = format_column_names es (columns df)"
  unfolding format_columns_def
  by (rule columns_set_columns) (simp add: length_format_column_names columns_def)

lemma data_format_columns: "map snd (format_columns es df) = map snd df"
  by (simp add: format_columns_def data_set_columns length_format_column_names columns_def)

lemma length_format_columns: "length (format_columns es df) = length df"
  using data_format_columns [of es df] by (metis length_map)

subsection \<open>Trailing whitespace\<close>

lemma rstrip_string_cols_map:
  "rstrip_string_cols df = map (\<lambda>(n, s). (n, rstrip_if_object s)) df"
proof -
  have "(if n \<in> set (columns (select_dtypes [Object] df)) then (n, rstrip_if_object s) else (n, s))
        = (n, rstrip_if_object s)" if "(n, s) \<in> set df" for n s
  proof (cases "dtype_of s = Object")
    case True
    with that have "n \<in> set (columns (select_dtypes [Object] df))"
      by (force simp: columns_def select_dtypes_def)
    then show ?thesis by simp
  next
    case False
    then have "rstrip_if_object s = s" by (cases s) auto
    then show ?thesis by simp
  qed
  then show ?thesis
    by (auto simp: rstrip_string_cols_def Let_def)
qed

lemma columns_rstrip_string_cols: "columns (rstrip_string_cols df) = columns df"
  by (simp add: rstrip_string_cols_map columns_def split_def comp_def)

lemma series_len_rstrip_if_object: "series_len (rstrip_if_object s) = series_len s"
  by (cases s) (auto simp: series_len_def str_rstrip_def)

subsection \<open>Dates\<close>

lemma format_date_col_map:
  assumes "distinct (columns d)"
  shows "format_date_col col d = map (\<lambda>(n, s). if n = col then (n, date_to_text s) else (n, s)) d"
proof (cases "map_of d col")
  case None
  then have "n \<noteq> col" if "(n, s) \<in> set d" for n s
    using that by (metis map_of_eq_None_iff fst_conv image_eqI)
  then have "map (\<lambda>(n, s). if n = col then (n, date_to_text s) else (n, s)) d = map (\<lambda>c. c) d"
    by (intro map_cong) auto
  with None show ?thesis by (simp add: format_date_col_def)
next
  case (Some s0)
  have uniq: "s = s0" if "(col, s) \<in> set d" for s
    using that Some assms by (simp add: columns_def)
  show ?thesis
  proof (cases s0)
    case (DatetimeS xs)
    have "map (\<lambda>(n, s). if n = col then (n, ObjectS (dt_strftime xs)) else (n, s)) d
        = map (\<lambda>(n, s). if n = col then (n, date_to_text s) else (n, s)) d"
      by (intro map_cong) (auto simp: DatetimeS dest!: uniq)
    with Some DatetimeS show ?thesis by (simp add: format_date_col_def)
  next
    case (ObjectS xs)
    have "map (\<lambda>(n, s). if n = col then (n, date_to_text s) else (n, s)) d = map (\<lambda>c. c) d"
      by (intro map_cong) (auto simp: ObjectS dest!: uniq)
    with Some ObjectS show ?thesis by (simp add: format_date_col_def)
  next
    case (Int64S xs)
    have "map (\<lambda>(n, s). if n = col then (n, date_to_text s) else (n, s)) d = map (\<lambda>c. c) d"
      by (intro map_cong) (auto simp: Int64S dest!: uniq)
    with Some Int64S show ?thesis by (simp add: format_date_col_def)
  next
    case (Float64S xs)
    have "map (\<lambda>(n, s). if n = col then (n, date_to_text s) else (n, s)) d = map (\<lambda>c. c) d"
      by (intro map_cong) (auto simp: Float64S dest!: uniq)
    with Some Float64S show ?thesis by (simp add: format_date_col_def)
  next
    case (BoolS xs)
    have "map (\<lambda>(n, s). if n = col then (n, date_to_text s) else (n, s)) d = map (\<lambda>c. c) d"
      by (intro map_cong) (auto simp: BoolS dest!: uniq)
    with Some BoolS show ?thesis by (simp add: format_date_col_def)
  qed
qed

lemma date_to_text_idem: "date_to_text (date_to_text s) = date_to_text s"
  by (cases s) auto

lemma foldl_format_date_col:
  assumes "distinct (columns d)"
  shows "foldl (\<lambda>d col. format_date_col col d) d cols
         = map (\<lambda>(n, s). if n \<in> set cols then (n, date_to_text s) else (n, s)) d"
  using assms
proof (induction cols arbitrary: d)
  case Nil
  then show ?case by (simp add: split_def)
next
  case (Cons col cols)
  let ?d = "map (\<lambda>(n, s). if n = col then (n, date_to_text s) else (n, s)) d"
  have cols: "columns ?d = columns d"
    by (simp add: columns_def comp_def split_def if_distrib cong: if_cong)
  have "foldl (\<lambda>d col. format_date_col col d) d (col # cols)
        = foldl (\<lambda>d col. format_date_col col d) ?d cols"
    by (simp add: format_date_col_map [OF Cons.prems])
  also have "\<dots> = map (\<lambda>(n, s). if n \<in> set cols then (n, date_to_text s) else (n, s)) ?d"
    by (rule Cons.IH) (simp add: cols Cons.prems)
  also have "\<dots> = map (\<lambda>(n, s). if n \<in> set (col # cols) then (n, date_to_text s) else (n, s)) d"
    by (auto simp: date_to_text_idem)
  finally show ?case .
qed

lemma format_date_cols_map:
  assumes "distinct (columns df)"
  shows "format_date_cols df = map (\<lambda>(n, s). (n, date_to_text s)) df"
proof -
  have "(if n \<in> set (columns (select_dtypes [Datetime64] df)) then (n, date_to_text s) else (n, s))
        = (n, date_to_text s)" if "(n, s) \<in> set df" for n s
  proof (cases "dtype_of s = Datetime64")
    case True
    with that have "n \<in> set (columns (select_dtypes [Datetime64] df))"
      by (force simp: columns_def select_dtypes_def)
    then show ?thesis by simp
  next
    case False
    then have "date_to_text s = s" by (cases s) auto
    then show ?thesis by simp
  qed
  then show ?thesis
    by (auto simp: format_date_cols_def Let_def foldl_format_date_col [OF assms])
qed

declare str_nat.simps [simp del]

lemma str_nat_1: "n < 10 \<Longrightarrow> str_nat n = [digit n]"
  by (simp add: str_nat.simps)

lemma str_nat_2: "10 \<le> n \<Longrightarrow> n < 100 \<Longrightarrow> str_nat n = [digit (n div 10), digit (n mod 10)]"
  by (subst str_nat.simps) (simp add: str_nat_1)

lemma str_nat_3:
  "100 \<le> n \<Longrightarrow> n < 1000 \<Longrightarrow> str_nat n = [digit (n div 100), digit (n div 10 mod 10), digit (n mod 10)]"
  by (subst str_nat.simps) (simp add: str_nat_2 div_mult2_eq [symmetric])

lemma str_nat_4:
  "1000 \<le> n \<Longrightarrow> n < 10000 \<Longrightarrow>
   str_nat n = [digit (n div 1000), digit (n div 100 mod 10), digit (n div 10 mod 10), digit (n mod 10)]"
  by (subst str_nat.simps) (simp add: str_nat_3 div_mult2_eq [symmetric])

lemma digit_0: "digit 0 = CHR ''0''"
  by (simp add: digit_def)

lemma zero_pad_2: "n < 100 \<Longrightarrow> zero_pad 2 (str_nat n) = [digit (n div 10), digit (n mod 10)]"
  by (cases "n < 10") (simp_all add: zero_pad_def str_nat_1 str_nat_2 digit_0)

lemma zero_pad_4:
  "1000 \<le> n \<Longrightarrow> n < 10000 \<Longrightarrow>
   zero_pad 4 (str_nat n) = [digit (n div 1000), digit (n div 100 mod 10), digit (n div 10 mod 10), digit (n mod 10)]"
  by (simp add: zero_pad_def str_nat_4)

lemma strftime_pattern:
  assumes "valid_timestamp t"
  shows "strftime t =
     [digit (month t div 10), digit (month t mod 10), CHR ''/'',
      digit (day t div 10), digit (day t mod 10), CHR ''/'',
      digit (year t div 1000), digit (year t div 100 mod 10),
      digit (year t div 10 mod 10), digit (year t mod 10)]"
proof -
  from assms have "month t < 100" "day t < 100" "1000 \<le> year t" "year t < 10000"
    by (simp_all add: valid_timestamp_def)
  then show ?thesis
    by (simp add: strftime_def zero_pad_2 zero_pad_4)
qed

lemma strftime_example:
  "strftime \<lparr>year = 2024, month = 3, day = 5, time_of_day = tod\<rparr> = ''03/05/2024''"
proof -
  have "valid_timestamp \<lparr>year = 2024, month = 3, day = 5, time_of_day = tod\<rparr>"
    by (simp add: valid_timestamp_def)
  from strftime_pattern [OF this] show ?thesis
    by (simp add: digit_def)
qed

text \<open>
  Claim C8. In a table with distinct labels, the date stage keeps every label, replaces
  every datetime column by the text column of its values formatted with
  \<^verbatim>\<open>%m/%d/%Y\<close> (a missing date stays missing) and leaves every other column as it
  is. For a valid timestamp the text is two digits of the month, a slash, two digits of
  the day, a slash and four digits of the year; 2024-03-05 gives \<^verbatim>\<open>03/05/2024\<close>.
\<close>

theorem date_columns_formatted:
  assumes "distinct (columns df)" and "i < length df"
  shows "fst (format_date_cols df ! i) = fst (df ! i)
       \<and> (\<forall>xs. snd (df ! i) = DatetimeS xs \<longrightarrow>
              snd (format_date_cols df ! i) = ObjectS (map (map_option strftime) xs))
       \<and> (dtype_of (snd (df ! i)) \<noteq> Datetime64 \<longrightarrow> format_date_cols df ! i = df ! i)
       \<and> (\<forall>t. valid_timestamp t \<longrightarrow> strftime t =
              [digit (month t div 10), digit (month t mod 10), CHR ''/'',
               digit (day t div 10), digit (day t mod 10), CHR ''/'',
               digit (year t div 1000), digit (year t div 100 mod 10),
               digit (year t div 10 mod 10), digit (year t mod 10)])
       \<and> (\<forall>tod. strftime \<lparr>year = 2024, month = 3, day = 5, time_of_day = tod\<rparr> = ''03/05/2024'')"
proof -
  obtain n s where ns: "df ! i = (n, s)" by (cases "df ! i")
  have at: "format_date_cols df ! i = (n, date_to_text s)"
    using assms ns by (simp add: format_date_cols_map)
  have "dtype_of s \<noteq> Datetime64 \<Longrightarrow> date_to_text s = s"
    by (cases s) auto
  with at ns show ?thesis
    by (auto simp: strftime_pattern strftime_example dt_strftime_def)
qed

theorem date_columns_formatted_witness:
  "format_date_cols
     [(''when'', DatetimeS [Some \<lparr>year = 2024, month = 3, day = 5, time_of_day = 0\<rparr>, None]),
      (''n'', Int64S [1, 2]) :: string \<times> real series]
   = [(''when'', ObjectS [Some ''03/05/2024'', None]), (''n'', Int64S [1, 2])]"
proof -
  let ?df = "[(''when'', DatetimeS [Some \<lparr>year = 2024, month = 3, day = 5, time_of_day = 0\<rparr>, None]),
      (''n'', Int64S [1, 2]) :: string \<times> real series]"
  have d: "distinct (columns ?df)" by (simp add: columns_def)
  have l: "length (format_date_cols ?df) = 2"
    by (simp add: format_date_cols_map [OF d])
  have "format_date_cols ?df ! 0 = (''when'', ObjectS [Some ''03/05/2024'', None])"
    using date_columns_formatted [OF d, of 0] by (simp add: prod_eq_iff)
  moreover have "format_date_cols ?df ! 1 = (''n'', Int64S [1, 2])"
    using date_columns_formatted [OF d, of 1] by simp
  ultimately show ?thesis using l
    by (simp add: list_eq_iff_nth_eq nth_Cons' less_Suc_eq numeral_2_eq_2)
qed

subsection \<open>The text left by \<^verbatim>\<open>rstrip\<close>\<close>

lemma rstrip_decomp: "s = rstrip s @ rev (takeWhile is_space (rev s))"
proof -
  have "rev (dropWhile is_space (rev s)) @ rev (takeWhile is_space (rev s))
        = rev (takeWhile is_space (rev s) @ dropWhile is_space (rev s))"
    by (rule rev_append [symmetric])
  also have "\<dots> = s"
    by (simp only: takeWhile_dropWhile_id rev_rev_ident)
  finally show ?thesis by (simp only: rstrip_def)
qed

lemma rstrip_last: "rstrip s = [] \<or> \<not> is_space (last (rstrip s))"
proof (cases "dropWhile is_space (rev s)")
  case Nil
  then show ?thesis by (simp add: rstrip_def)
next
  case (Cons c cs)
  then have "\<not> is_space c" by (metis hd_dropWhile list.sel(1) list.distinct(1))
  with Cons show ?thesis by (simp add: rstrip_def)
qed

lemma rstrip_leading:
  assumes "rstrip s \<noteq> []"
  shows "takeWhile is_space (rstrip s) = takeWhile is_space s"
proof -
  from assms rstrip_last [of s] have "\<not> is_space (last (rstrip s))" by simp
  moreover from assms have "last (rstrip s) \<in> set (rstrip s)" by simp
  ultimately have "takeWhile is_space (rstrip s @ rev (takeWhile is_space (rev s)))
                   = takeWhile is_space (rstrip s)"
    by (intro takeWhile_append1) auto
  with rstrip_decomp [of s] show ?thesis by simp
qed

lemma rstrip_spec:
  "\<exists>ws. v = rstrip v @ ws \<and> list_all is_space ws
        \<and> (rstrip v = [] \<or> \<not> is_space (last (rstrip v)))
        \<and> (rstrip v \<noteq> [] \<longrightarrow> takeWhile is_space (rstrip v) = takeWhile is_space v)"
proof -
  have "list_all is_space (rev (takeWhile is_space (rev v)))"
    by (simp add: list_all_iff) (metis set_takeWhileD)
  with rstrip_decomp [of v] rstrip_last [of v] rstrip_leading [of v] show ?thesis
    by blast
qed

lemma rstrip_example: "rstrip '' abc  '' = '' abc''"
  by (simp add: rstrip_def is_space_def)

text \<open>
  Claim C3. In a table with distinct labels, the whitespace stage keeps every label. In a
  text column it keeps a missing value missing and turns a value \<open>v\<close> into the prefix
  \<open>w\<close> of \<open>v\<close> that is left when the trailing whitespace \<open>ws\<close> is removed:
  \<open>w\<close> does not end in whitespace, and unless \<open>w\<close> is empty its leading whitespace
  is that of \<open>v\<close>. A column of any other dtype is unchanged.
\<close>

theorem sanitize_trailing_whitespace:
  assumes "distinct (columns df)" and "i < length df"
  shows "fst (rstrip_string_cols df ! i) = fst (df ! i)
       \<and> (\<forall>xs. snd (df ! i) = ObjectS xs \<longrightarrow>
            (\<exists>ys. snd (rstrip_string_cols df ! i) = ObjectS ys \<and> length ys = length xs
               \<and> (\<forall>j<length xs.
                    (xs ! j = None \<longrightarrow> ys ! j = None)
                  \<and> (\<forall>v. xs ! j = Some v \<longrightarrow>
                       (\<exists>w ws. ys ! j = Some w \<and> v = w @ ws \<and> list_all is_space ws
                          \<and> (w = [] \<or> \<not> is_space (last w))
                          \<and> (w \<noteq> [] \<longrightarrow> takeWhile is_space w = takeWhile is_space v))))))
       \<and> (dtype_of (snd (df ! i)) \<noteq> Object \<longrightarrow> rstrip_string_cols df ! i = df ! i)"
proof -
  obtain n s where ns: "df ! i = (n, s)" by (cases "df ! i")
  have at: "rstrip_string_cols df ! i = (n, rstrip_if_object s)"
    using assms ns by (simp add: rstrip_string_cols_map)
  have other: "dtype_of s \<noteq> Object \<Longrightarrow> rstrip_if_object s = s"
    by (cases s) auto
  have strs: "\<exists>w ws. str_rstrip xs ! j = Some w \<and> v = w @ ws \<and> list_all is_space ws
                  \<and> (w = [] \<or> \<not> is_space (last w))
                  \<and> (w \<noteq> [] \<longrightarrow> takeWhile is_space w = takeWhile is_space v)"
    if "j < length xs" "xs ! j = Some v" for xs j v
  proof -
    from that have "str_rstrip xs ! j = Some (rstrip v)" by (simp add: str_rstrip_def)
    with rstrip_spec [of v] show ?thesis by blast
  qed
  have nulls: "str_rstrip xs ! j = None" if "j < length xs" "xs ! j = None" for xs j
    using that by (simp add: str_rstrip_def)
  have len: "length (str_rstrip xs) = length xs" for xs
    by (simp add: str_rstrip_def)
  show ?thesis
    using at ns other strs nulls len by auto
qed

theorem sanitize_trailing_whitespace_witness:
  "snd (rstrip_string_cols
          [(''t'', ObjectS [Some ''  x y  '', None]), (''n'', Int64S [1, 2]) :: string \<times> real series] ! 0)
     = ObjectS [Some ''  x y'', None]
   \<and> rstrip_string_cols
          [(''t'', ObjectS [Some ''  x y  '', None]), (''n'', Int64S [1, 2]) :: string \<times> real series] ! 1
     = (''n'', Int64S [1, 2])"
proof -
  let ?df = "[(''t'', ObjectS [Some ''  x y  '', None]), (''n'', Int64S [1, 2]) :: string \<times> real series]"
  have d: "distinct (columns ?df)" by (simp add: columns_def)
  from sanitize_trailing_whitespace [OF d, of 0]
  obtain ys where ys: "snd (rstrip_string_cols ?df ! 0) = ObjectS ys" "length ys = 2"
    by auto
  have "ys = [Some ''  x y'', None]"
    using ys by (simp add: rstrip_string_cols_map str_rstrip_def rstrip_def is_space_def)
  moreover have "rstrip_string_cols ?df ! 1 = (''n'', Int64S [1, 2])"
    using sanitize_trailing_whitespace [OF d, of 1] by simp
  ultimately show ?thesis using ys by simp
qed

text \<open>
  Claim C2, as stated, fails: only trailing whitespace is removed, so the text
  \<^verbatim>\<open>" abc  "\<close> becomes \<^verbatim>\<open>" abc"\<close>, which keeps its leading space.
\<close>

theorem sanitize_abc_counterexample:
  "rstrip_string_cols [(''t'', ObjectS [Some '' abc  '']) :: string \<times> real series]
     = [(''t'', ObjectS [Some '' abc''])]
   \<and> rstrip_string_cols [(''t'', ObjectS [Some '' abc  '']) :: string \<times> real series]
     \<noteq> [(''t'', ObjectS [Some ''abc''])]"
  by (simp add: rstrip_string_cols_map str_rstrip_def rstrip_example)

text \<open>
  Claim C2, amended. In a table with distinct labels, a value \<^verbatim>\<open>" abc  "\<close> of a text
  column is \<^verbatim>\<open>" abc"\<close> after the whitespace stage (trailing whitespace removed, leading
  whitespace kept), and every column of dtype int64 or float64 is unchanged.
\<close>

theorem sanitize_abc:
  assumes "distinct (columns df)" and "i < length df"
  shows "(\<forall>xs j. snd (df ! i) = ObjectS xs \<and> j < length xs \<and> xs ! j = Some '' abc  '' \<longrightarrow>
            (\<exists>ys. snd (rstrip_string_cols df ! i) = ObjectS ys \<and> ys ! j = Some '' abc''))
       \<and> (dtype_of (snd (df ! i)) \<in> {Int64, Float64} \<longrightarrow> rstrip_string_cols df ! i = df ! i)"
proof -
  obtain n s where ns: "df ! i = (n, s)" by (cases "df ! i")
  have at: "rstrip_string_cols df ! i = (n, rstrip_if_object s)"
    using assms ns by (simp add: rstrip_string_cols_map)
  have other: "dtype_of s \<in> {Int64, Float64} \<Longrightarrow> rstrip_if_object s = s"
    by (cases s) auto
  have "str_rstrip xs ! j = Some '' abc''" if "j < length xs" "xs ! j = Some '' abc  ''" for xs j
    using that by (simp add: str_rstrip_def rstrip_example)
  with at ns other show ?thesis by auto
qed

theorem sanitize_abc_witness:
  "rstrip_string_cols
     [(''t'', ObjectS [Some '' abc  '']), (''n'', Float64S [Some 1.5, None]) :: string \<times> real series] ! 1
     = (''n'', Float64S [Some 1.5, None])
   \<and> (\<exists>ys. snd (rstrip_string_cols
         [(''t'', ObjectS [Some '' abc  '']), (''n'', Float64S [Some 1.5, None]) :: string \<times> real series] ! 0)
           = ObjectS ys \<and> ys ! 0 = Some '' abc'')"
proof -
  let ?df = "[(''t'', ObjectS [Some '' abc  '']), (''n'', Float64S [Some 1.5, None]) :: string \<times> real series]"
  have d: "distinct (columns ?df)" by (simp add: columns_def)
  have "rstrip_string_cols ?df ! 1 = (''n'', Float64S [Some 1.5, None])"
    using sanitize_abc [OF d, of 1] by simp
  moreover have "\<exists>ys. snd (rstrip_string_cols ?df ! 0) = ObjectS ys \<and> ys ! 0 = Some '' abc''"
    using sanitize_abc [OF d, of 0] by simp
  ultimately show ?thesis by simp
qed

subsection \<open>Renaming\<close>

lemma rename_exceptions_map: "rename_exceptions es cols = map (rename_label es) cols"
proof (induction es arbitrary: cols)
  case Nil
  show ?case by simp
next
  case (Cons e es)
  obtain old_col new_col where e: "e = (old_col, new_col)" by (cases e)
  have "map (\<lambda>c. if c = old_col then new_col else c) cols = cols" if "old_col \<notin> set cols"
    using that by (intro map_idI) auto
  then have "(if old_col \<in> set cols then map (\<lambda>c. if c = old_col then new_col else c) cols else cols)
        = map (\<lambda>c. if c = old_col then new_col else c) cols"
    by simp
  then show ?case
    by (simp add: e Cons.IH comp_def)
qed

lemma rename_label_other: "c \<notin> fst ` set es \<Longrightarrow> rename_label es c = c"
  by (induction es c rule: rename_label.induct) auto

lemma format_column_names_nth:
  "i < length cols \<Longrightarrow>
   format_column_names es cols ! i = rename_label es (new_col_name es (cols ! i))"
  by (simp add: format_column_names_def rename_exceptions_map)

lemma new_col_name_first:
  assumes "es = pre @ (s, t) # post" and "s \<notin> fst ` set pre"
  shows "new_col_name es s = t"
proof -
  from assms(2) have "filter (\<lambda>e. fst e = s) pre = []"
    by (auto simp: filter_empty_conv)
  with assms(1) show ?thesis
    by (simp add: new_col_name_def)
qed

lemma new_col_name_other: "c \<notin> fst ` set es \<Longrightarrow> new_col_name es c = snake_case c"
  by (simp add: new_col_name_def)

lemma snake_case_UserId: "snake_case ''UserId'' = ''user_id''"
  by code_simp

subsection \<open>The returned triple\<close>

lemma analyze_and_clean_excel_file_eq:
  "analyze_and_clean_excel_file pd exceptions df0 =
     (clean exceptions df0,
      \<lparr>missing_values_warning = check_missing_values pd (format_columns exceptions df0),
       duplicates_warning = check_duplicates (format_columns exceptions df0),
       data_types = check_data_types pd (format_columns exceptions df0),
       box_plot_title = fst (snd (box_plot (clean exceptions df0))),
       dist_plots_title =
         fst (dist_plots (clean exceptions df0) (outlier_selection (clean exceptions df0))),
       dataframe_summary =
         summary pd (clean exceptions df0) (outlier_selection (clean exceptions df0))\<rparr>,
      snd (snd (box_plot (clean exceptions df0)))
      @ snd (dist_plots (clean exceptions df0) (outlier_selection (clean exceptions df0))))"
  by (simp add: analyze_and_clean_excel_file_def clean_def outlier_selection_def Let_def split_def)

lemma format_columns_zip:
  "format_columns es df = zip (format_column_names es (columns df)) (map snd df)"
proof -
  have "format_columns es df = zip (map fst (format_columns es df)) (map snd (format_columns es df))"
    by (simp add: zip_map_fst_snd)
  then show ?thesis
    using columns_format_columns [of es df] by (simp add: data_format_columns columns_def)
qed

subsection \<open>Missing values\<close>

lemma missing_values_format_columns:
  "missing_values (format_columns es df)
   = zip (format_column_names es (columns df)) (map (\<lambda>c. isnull_sum (snd c)) df)"
proof -
  have "missing_values (zip ns (map snd df)) = zip ns (map (\<lambda>c. isnull_sum (snd c)) df)"
    if "length ns = length df" for ns :: "string list"
    using that by (induction ns df rule: list_induct2) (auto simp: missing_values_def)
  then show ?thesis
    by (simp add: format_columns_zip length_format_column_names columns_def)
qed

lemma total_missing_format_columns:
  "sum_list (map snd (missing_values (format_columns es df)))
   = sum_list (map (\<lambda>c. isnull_sum (snd c)) df)"
  by (simp add: missing_values_format_columns length_format_column_names columns_def)

lemma snake_case_a: "snake_case ''a'' = ''a''"
  by code_simp

lemma snake_case_b: "snake_case ''b'' = ''b''"
  by code_simp

text \<open>
  Claim C6. The missing-value entry of the results is present exactly when the number of
  missing entries, summed over all columns, is not zero. When present, it is the heading
  followed by pandas' text for the list of the pairs (new label, number of missing
  entries) of the columns whose number is positive, in column order. For a table of three
  rows with the columns \<^verbatim>\<open>a\<close> (one missing entry) and \<^verbatim>\<open>b\<close> (none), that list is
  the single pair of \<^verbatim>\<open>a\<close> and 1.
\<close>

theorem missing_values_warning_columns:
  assumes "distinct (format_column_names exceptions (columns df0))"
    and "analyze_and_clean_excel_file pd exceptions df0 = (df, res, calls)"
  shows "(missing_values_warning res \<noteq> None
            \<longleftrightarrow> sum_list (map (\<lambda>c. isnull_sum (snd c)) df0) \<noteq> 0)
       \<and> (sum_list (map (\<lambda>c. isnull_sum (snd c)) df0) \<noteq> 0 \<longrightarrow>
            missing_values_warning res =
              Some (''Warning: the following columns have missing values:'' @ [CHR 0x0A]
                    @ str_counts pd
                        (filter (\<lambda>(n, k). k > 0)
                           (zip (format_column_names exceptions (columns df0))
                                (map (\<lambda>c. isnull_sum (snd c)) df0)))))
       \<and> (\<forall>sa sb. df0 = [(''a'', sa), (''b'', sb)] \<and> series_len sa = 3 \<and> series_len sb = 3
              \<and> ''a'' \<notin> fst ` set exceptions \<and> ''b'' \<notin> fst ` set exceptions
              \<and> isnull_sum sa = 1 \<and> isnull_sum sb = 0 \<longrightarrow>
            missing_values_warning res =
              Some (''Warning: the following columns have missing values:'' @ [CHR 0x0A]
                    @ str_counts pd [(''a'', 1)]))"
proof -
  from assms(2) have res: "missing_values_warning res
      = check_missing_values pd (format_columns exceptions df0)"
    by (auto simp: analyze_and_clean_excel_file_eq)
  define total where "total = sum_list (map (\<lambda>c. isnull_sum (snd c)) df0)"
  define listed where "listed = filter (\<lambda>(n, k). k > 0)
                           (zip (format_column_names exceptions (columns df0))
                                (map (\<lambda>c. isnull_sum (snd c)) df0))"
  have "missing_values_warning res =
      (if total > 0
       then Some (''Warning: the following columns have missing values:'' @ [CHR 0x0A]
                    @ str_counts pd listed)
       else None)"
  proof -
    have t: "sum_list (map snd (missing_values (format_columns exceptions df0))) = total"
      by (simp only: total_missing_format_columns total_def)
    have l: "filter (\<lambda>(n, k). k > 0) (missing_values (format_columns exceptions df0)) = listed"
      by (simp only: missing_values_format_columns listed_def)
    show ?thesis
      unfolding res check_missing_values_def t l ..
  qed
  then have general: "missing_values_warning res =
      (if total \<noteq> 0
       then Some (''Warning: the following columns have missing values:'' @ [CHR 0x0A]
                    @ str_counts pd listed)
       else None)"
    by simp
  have names: "format_column_names exceptions [''a'', ''b''] = [''a'', ''b'']"
    if "''a'' \<notin> fst ` set exceptions" "''b'' \<notin> fst ` set exceptions"
    using that
    by (simp add: format_column_names_def rename_exceptions_map new_col_name_other
        snake_case_a snake_case_b rename_label_other)
  have example: "missing_values_warning res =
              Some (''Warning: the following columns have missing values:'' @ [CHR 0x0A]
                    @ str_counts pd [(''a'', 1)])"
    if a: "df0 = [(''a'', sa), (''b'', sb)] \<and> series_len sa = 3 \<and> series_len sb = 3
              \<and> ''a'' \<notin> fst ` set exceptions \<and> ''b'' \<notin> fst ` set exceptions
              \<and> isnull_sum sa = 1 \<and> isnull_sum sb = 0" for sa sb
  proof -
    from a have "format_column_names exceptions (columns df0) = [''a'', ''b'']"
      using names by (simp add: columns_def)
    with a have "listed = [(''a'', 1)]" "total = 1"
      by (simp_all add: listed_def total_def)
    with general show ?thesis by simp
  qed
  from general have "(missing_values_warning res \<noteq> None) = (total \<noteq> 0)"
    by simp
  moreover from general have "total \<noteq> 0 \<longrightarrow> missing_values_warning res =
      Some (''Warning: the following columns have missing values:'' @ [CHR 0x0A]
                    @ str_counts pd listed)"
    by simp
  ultimately show ?thesis
    using example unfolding total_def listed_def by blast
qed

theorem missing_values_warning_columns_witness:
  "\<forall>pd :: (real, unit) pandas.
     missing_values_warning
       (fst (snd (analyze_and_clean_excel_file pd default_exceptions
          [(''a'', ObjectS [Some ''x'', None, Some ''y'']), (''b'', Int64S [1, 2, 3])])))
     = Some (''Warning: the following columns have missing values:'' @ [CHR 0x0A]
             @ str_counts pd [(''a'', 1)])"
proof
  fix pd :: "(real, unit) pandas"
  let ?df0 = "[(''a'', ObjectS [Some ''x'', None, Some ''y'']), (''b'', Int64S [1, 2, 3])]
              :: real dataframe"
  obtain df res calls where
    r: "analyze_and_clean_excel_file pd default_exceptions ?df0 = (df, res, calls)"
    by (cases "analyze_and_clean_excel_file pd default_exceptions ?df0")
  have names: "format_column_names default_exceptions (columns ?df0) = [''a'', ''b'']"
    by (simp add: columns_def default_exceptions_def format_column_names_def
        new_col_name_def snake_case_a snake_case_b)
  have d: "distinct (format_column_names default_exceptions (columns ?df0))"
    unfolding names by simp
  have h: "?df0 = [(''a'', ObjectS [Some ''x'', None, Some ''y'']), (''b'', Int64S [1, 2, 3])]
            \<and> series_len (ObjectS [Some ''x'', None, Some ''y'']) = 3
            \<and> series_len (Int64S [1, 2, 3] :: real series) = 3
            \<and> ''a'' \<notin> fst ` set default_exceptions \<and> ''b'' \<notin> fst ` set default_exceptions
            \<and> isnull_sum (ObjectS [Some ''x'', None, Some ''y'']) = 1
            \<and> isnull_sum (Int64S [1, 2, 3] :: real series) = 0"
    by (simp add: default_exceptions_def series_len_def isnull_sum_def)
  have "missing_values_warning res
        = Some (''Warning: the following columns have missing values:'' @ [CHR 0x0A]
             @ str_counts pd [(''a'', 1)])"
    using missing_values_warning_columns [OF d r, THEN conjunct2, THEN conjunct2, rule_format, OF h] .
  with r show "missing_values_warning
       (fst (snd (analyze_and_clean_excel_file pd default_exceptions ?df0)))
     = Some (''Warning: the following columns have missing values:'' @ [CHR 0x0A]
             @ str_counts pd [(''a'', 1)])"
    by simp
qed

subsection \<open>Duplicate rows\<close>

lemma length_duplicated_from: "length (duplicated_from seen rs) = length rs"
  by (induction rs arbitrary: seen) auto

lemma duplicated_from_nth:
  "i < length rs \<Longrightarrow>
   duplicated_from seen rs ! i = (rs ! i \<in> set seen \<or> (\<exists>j<i. rs ! j = rs ! i))"
proof (induction rs arbitrary: seen i)
  case Nil
  then show ?case by simp
next
  case (Cons r rs)
  show ?case
  proof (cases i)
    case 0
    then show ?thesis by simp
  next
    case (Suc k)
    with Cons.prems have k: "k < length rs" by simp
    have "(\<exists>j<Suc k. (r # rs) ! j = rs ! k) = (r = rs ! k \<or> (\<exists>j<k. rs ! j = rs ! k))"
      by (auto simp: less_Suc_eq_0_disj)
    with Cons.IH [OF k, of "r # seen"] Suc show ?thesis by auto
  qed
qed

lemma duplicated_from_eq:
  "duplicated_from [] rs = map (\<lambda>i. \<exists>j<i. rs ! j = rs ! i) [0..<length rs]"
  by (rule nth_equalityI) (simp_all add: length_duplicated_from duplicated_from_nth)

lemma count_duplicated_from:
  "length (filter (\<lambda>b. b) (duplicated_from [] rs))
   = card {i. i < length rs \<and> (\<exists>j<i. rs ! j = rs ! i)}"
proof -
  have "length (filter (\<lambda>b. b) (duplicated_from [] rs))
        = card {i. i < length (duplicated_from [] rs) \<and> duplicated_from [] rs ! i}"
    by (rule length_filter_conv_card)
  also have "{i. i < length (duplicated_from [] rs) \<and> duplicated_from [] rs ! i}
             = {i. i < length rs \<and> (\<exists>j<i. rs ! j = rs ! i)}"
    by (auto simp: length_duplicated_from duplicated_from_nth)
  finally show ?thesis .
qed

lemma nrows_data: "map snd df = map snd df' \<Longrightarrow> nrows df = nrows df'"
  by (cases df; cases df') (auto simp: nrows_def)

lemma row_data:
  assumes "map snd df = map snd df'"
  shows "row df i = row df' i"
proof -
  have "row d i = map (\<lambda>s. cells s ! i) (map snd d)" for d :: "'a dataframe"
    by (simp add: row_def split_def comp_def)
  then have "row df i = map (\<lambda>s. cells s ! i) (map snd df)"
    and "row df' i = map (\<lambda>s. cells s ! i) (map snd df')"
    by blast+
  with assms show ?thesis by (simp only:)
qed

lemma rows_data: "map snd df = map snd df' \<Longrightarrow> rows df = rows df'"
  using nrows_data [of df df'] row_data [of df df'] by (simp add: rows_def)

lemma duplicates_card:
  "duplicates df = card {i. i < nrows df \<and> (\<exists>j<i. row df j = row df i)}"
proof -
  have "{i. i < length (rows df) \<and> (\<exists>j<i. rows df ! j = rows df ! i)}
        = {i. i < nrows df \<and> (\<exists>j<i. row df j = row df i)}"
    by (auto simp: rows_def)
  then show ?thesis
    by (simp add: duplicates_def duplicated_def count_duplicated_from)
qed

lemma duplicates_format_columns: "duplicates (format_columns es df) = duplicates df"
  using rows_data [OF data_format_columns, of es df]
  by (simp add: duplicates_def duplicated_def)

lemma str_nat_one: "str_nat (Suc 0) = ''1''"
  by (simp add: str_nat_1 digit_def)

subsection \<open>The cleaned table\<close>

lemma columns_format_date_cols:
  "distinct (columns df) \<Longrightarrow> columns (format_date_cols df) = columns df"
  by (simp add: format_date_cols_map columns_def split_def comp_def)

lemma columns_clean:
  assumes "distinct (format_column_names es (columns df0))"
  shows "columns (clean es df0) = format_column_names es (columns df0)"
  using assms
  by (simp add: clean_def columns_format_date_cols columns_rstrip_string_cols
      columns_format_columns)

lemma clean_map:
  assumes "distinct (format_column_names es (columns df0))"
  shows "clean es df0
         = map (\<lambda>(n, s). (n, date_to_text (rstrip_if_object s))) (format_columns es df0)"
proof -
  have "distinct (columns (rstrip_string_cols (format_columns es df0)))"
    using assms by (simp add: columns_rstrip_string_cols columns_format_columns)
  then show ?thesis
    by (simp add: clean_def format_date_cols_map rstrip_string_cols_map split_def comp_def)
qed

lemma series_len_date_to_text: "series_len (date_to_text s) = series_len s"
  by (cases s) (auto simp: series_len_def dt_strftime_def)

lemma nrows_lens:
  "map (\<lambda>c. series_len (snd c)) df = map (\<lambda>c. series_len (snd c)) df' \<Longrightarrow> nrows df = nrows df'"
  by (cases df; cases df') (auto simp: nrows_def)

lemma lens_format_columns:
  "map (\<lambda>c. series_len (snd c)) (format_columns es df) = map (\<lambda>c. series_len (snd c)) df"
proof -
  have "map (\<lambda>c. series_len (snd c)) d = map series_len (map snd d)" for d :: "'a dataframe"
    by (simp add: comp_def)
  then show ?thesis
    by (simp only: data_format_columns)
qed

lemma lens_rstrip_string_cols:
  "map (\<lambda>c. series_len (snd c)) (rstrip_string_cols df) = map (\<lambda>c. series_len (snd c)) df"
  by (simp add: rstrip_string_cols_map split_def comp_def series_len_rstrip_if_object)

lemma lens_format_date_cols:
  "distinct (columns df) \<Longrightarrow>
   map (\<lambda>c. series_len (snd c)) (format_date_cols df) = map (\<lambda>c. series_len (snd c)) df"
  by (simp add: format_date_cols_map split_def comp_def series_len_date_to_text)

lemma wf_table_lens:
  "wf_table df = (\<forall>k \<in> set (map (\<lambda>c. series_len (snd c)) df). k = nrows df)"
  by (auto simp: wf_table_def list_all_iff)

lemma ncols_lens:
  "map (\<lambda>c. series_len (snd c)) df = map (\<lambda>c. series_len (snd c)) df' \<Longrightarrow> ncols df = ncols df'"
  unfolding ncols_def by (metis length_map)

lemma wf_table_cong:
  assumes "map (\<lambda>c. series_len (snd c)) df = map (\<lambda>c. series_len (snd c)) df'"
  shows "wf_table df = wf_table df'"
  using assms nrows_lens [OF assms] by (simp add: wf_table_lens)

text \<open>
  Claim C9. For a well-formed table whose new labels are distinct, each of the stages that
  change the table (renaming, whitespace, dates) keeps the number of columns and the number
  of rows, and so does the returned table, which is again well formed: every column keeps
  its length.
\<close>

theorem shape_preserved:
  assumes "distinct (format_column_names exceptions (columns df0))"
    and "wf_table df0"
    and "analyze_and_clean_excel_file pd exceptions df0 = (df, res, calls)"
  shows "ncols (format_columns exceptions df0) = ncols df0
       \<and> nrows (format_columns exceptions df0) = nrows df0
       \<and> ncols (rstrip_string_cols (format_columns exceptions df0)) = ncols df0
       \<and> nrows (rstrip_string_cols (format_columns exceptions df0)) = nrows df0
       \<and> df = format_date_cols (rstrip_string_cols (format_columns exceptions df0))
       \<and> ncols df = ncols df0
       \<and> nrows df = nrows df0
       \<and> map (\<lambda>c. series_len (snd c)) df = map (\<lambda>c. series_len (snd c)) df0
       \<and> wf_table df"
proof -
  let ?d1 = "format_columns exceptions df0"
  let ?d2 = "rstrip_string_cols ?d1"
  from assms(3) have df: "df = format_date_cols ?d2"
    by (auto simp: analyze_and_clean_excel_file_eq clean_def)
  have l1: "map (\<lambda>c. series_len (snd c)) ?d1 = map (\<lambda>c. series_len (snd c)) df0"
    by (rule lens_format_columns)
  have l2: "map (\<lambda>c. series_len (snd c)) ?d2 = map (\<lambda>c. series_len (snd c)) df0"
    by (simp only: lens_rstrip_string_cols l1)
  have "distinct (columns ?d2)"
    using assms(1) by (simp add: columns_rstrip_string_cols columns_format_columns)
  then have l3: "map (\<lambda>c. series_len (snd c)) df = map (\<lambda>c. series_len (snd c)) df0"
    unfolding df by (simp only: lens_format_date_cols l2)
  from l3 have "wf_table df"
    using assms(2) wf_table_cong by blast
  with l1 l2 l3 df show ?thesis
    using nrows_lens ncols_lens by blast
qed

theorem shape_preserved_witness:
  "\<forall>pd :: (real, unit) pandas.
     nrows (fst (analyze_and_clean_excel_file pd default_exceptions
        [(''UserId'', Int64S [1, 2, 3]), (''Name'', ObjectS [Some ''a '', None, Some ''b'']),
         (''Seen'', DatetimeS [None, None, None])])) = 3
   \<and> ncols (fst (analyze_and_clean_excel_file pd default_exceptions
        [(''UserId'', Int64S [1, 2, 3]), (''Name'', ObjectS [Some ''a '', None, Some ''b'']),
         (''Seen'', DatetimeS [None, None, None])])) = 3"
proof
  fix pd :: "(real, unit) pandas"
  let ?df0 = "[(''UserId'', Int64S [1, 2, 3]), (''Name'', ObjectS [Some ''a '', None, Some ''b'']),
         (''Seen'', DatetimeS [None, None, None])] :: real dataframe"
  obtain df res calls where
    r: "analyze_and_clean_excel_file pd default_exceptions ?df0 = (df, res, calls)"
    by (cases "analyze_and_clean_excel_file pd default_exceptions ?df0")
  have "snake_case ''UserId'' = ''user_id''" "snake_case ''Name'' = ''name''"
    "snake_case ''Seen'' = ''seen''"
    by code_simp+
  then have d: "distinct (format_column_names default_exceptions (columns ?df0))"
    by (simp add: columns_def default_exceptions_def format_column_names_def new_col_name_def)
  have w: "wf_table ?df0"
    by (simp add: wf_table_def nrows_def series_len_def)
  have "nrows df = nrows ?df0 \<and> ncols df = ncols ?df0"
    using shape_preserved [OF d w r] by blast
  then have "nrows df = 3 \<and> ncols df = 3"
    by (simp add: nrows_def ncols_def series_len_def)
  with r show "nrows (fst (analyze_and_clean_excel_file pd default_exceptions ?df0)) = 3
   \<and> ncols (fst (analyze_and_clean_excel_file pd default_exceptions ?df0)) = 3"
    by simp
qed

subsection \<open>The outlier selection\<close>

lemma unique_len_card: "unique_len s = card (set (cells s))"
  by (simp add: unique_len_def length_remdups_card_conv)

lemma map_of_column:
  "distinct (columns df) \<Longrightarrow> (n, s) \<in> set df \<Longrightarrow> map_of df n = Some s"
  by (simp add: columns_def)

lemma more_than_10_unique_eq:
  assumes "distinct (columns df)"
  shows "more_than_10_unique df (columns (select_dtypes [Int64, Float64] df))
         = columns (selected df)"
proof -
  let ?Q = "\<lambda>col. case map_of df col of Some s \<Rightarrow> unique_len s > 10 | None \<Rightarrow> False"
  let ?P = "\<lambda>(n, s). dtype_of s \<in> set [Int64, Float64]"
  have "filter ?Q (map fst (filter ?P df)) = map fst (filter (?Q \<circ> fst) (filter ?P df))"
    by (simp only: filter_map)
  also have "filter (?Q \<circ> fst) (filter ?P df) = filter (\<lambda>c. ?P c \<and> (?Q \<circ> fst) c) df"
    by (simp only: filter_filter conj_commute)
  also have "\<dots> = selected df"
    unfolding selected_def
    by (rule filter_cong) (auto simp: map_of_column [OF assms] unique_len_card)
  finally show ?thesis
    by (simp only: more_than_10_unique_def columns_def select_dtypes_def)
qed

lemma outlier_selection_eq:
  assumes "distinct (columns df)"
  shows "outlier_selection df = columns (selected df)"
proof (cases "columns (select_dtypes [Int64, Float64] df) = []")
  case True
  then have "select_dtypes [Int64, Float64] df = []"
    by (simp add: columns_def)
  then have "\<not> (dtype_of s \<in> {Int64, Float64})" if "(n, s) \<in> set df" for n s
    using that by (auto simp: select_dtypes_def filter_empty_conv)
  then have "selected df = []"
    by (auto simp: selected_def filter_empty_conv)
  with True show ?thesis
    by (simp add: outlier_selection_def box_plot_def columns_def)
next
  case False
  then show ?thesis
    by (simp add: outlier_selection_def box_plot_def Let_def more_than_10_unique_eq [OF assms])
qed

lemma getitems_columns:
  assumes "distinct (columns df)" and "set sel \<subseteq> set df"
  shows "getitems df (columns sel) = sel"
  using assms(2)
proof (induction sel)
  case Nil
  show ?case by (simp add: getitems_def columns_def)
next
  case (Cons c sel)
  obtain n s where c: "c = (n, s)" by (cases c)
  with Cons.prems have "map_of df n = Some s"
    using map_of_column [OF assms(1)] by simp
  moreover from Cons have "getitems df (columns sel) = sel" by simp
  ultimately show ?case
    by (simp add: getitems_def columns_def c)
qed

lemma getitems_selected:
  "distinct (columns df) \<Longrightarrow> getitems df (columns (selected df)) = selected df"
  by (rule getitems_columns) (auto simp: selected_def)

lemma summary_eq:
  assumes "distinct (columns df)"
  shows "summary pd df (outlier_selection df)
         = (if outlier_selection df = [] then None else Some (describe pd (selected df)))"
  by (simp add: summary_def outlier_selection_eq [OF assms] getitems_selected [OF assms])

lemma selected_label_unique:
  assumes "distinct (columns df)" and "(n, s) \<in> set df"
  shows "n \<in> set (columns (selected df))
         \<longleftrightarrow> dtype_of s \<in> {Int64, Float64} \<and> card (set (cells s)) > 10"
proof
  assume "n \<in> set (columns (selected df))"
  then obtain s' where s': "(n, s') \<in> set (selected df)"
    by (auto simp: columns_def)
  then have "(n, s') \<in> set df" by (simp add: selected_def)
  then have "map_of df n = Some s'" by (rule map_of_column [OF assms(1)])
  moreover have "map_of df n = Some s" by (rule map_of_column [OF assms])
  ultimately have "s' = s" by simp
  with s' show "dtype_of s \<in> {Int64, Float64} \<and> card (set (cells s)) > 10"
    by (simp add: selected_def)
next
  assume "dtype_of s \<in> {Int64, Float64} \<and> card (set (cells s)) > 10"
  with assms(2) have "(n, s) \<in> set (selected df)"
    by (simp add: selected_def)
  then show "n \<in> set (columns (selected df))"
    by (force simp: columns_def)
qed

lemma card_cells_two_ints:
  assumes "set xs \<subseteq> {0, 1}"
  shows "card (set (cells (Int64S xs :: 'f series))) \<le> 2"
proof -
  let ?C = "set (cells (Int64S xs :: 'f series))"
  let ?B = "{IntCell 0, IntCell 1} :: 'f cell set"
  have "?C \<subseteq> ?B"
    using assms by auto
  moreover have "finite ?B" by simp
  ultimately have "card ?C \<le> card ?B"
    by (rule card_mono [rotated])
  also have "card ?B \<le> 2" by (simp add: card_insert_if)
  finally show ?thesis .
qed

lemma distinct_columns_clean:
  "distinct (format_column_names es (columns df0)) \<Longrightarrow> distinct (columns (clean es df0))"
  by (simp add: columns_clean)

text \<open>
  Claim C5. With distinct labels, the outlier selection lists, in column order, the labels
  of exactly the columns of the cleaned table that have dtype int64 or float64 and more
  than ten distinct entries (a missing entry counts as one of them, as in
  \<^verbatim>\<open>unique()\<close>). The summary is absent when the selection is empty and otherwise is
  \<^verbatim>\<open>describe\<close> of the table made of the selected columns only. A numeric column with
  at most ten distinct entries, such as an integer column of zeros and ones, is not
  selected; a numeric column with eleven or more is.
\<close>

theorem outlier_selection_cardinality:
  assumes "distinct (format_column_names exceptions (columns df0))"
    and "analyze_and_clean_excel_file pd exceptions df0 = (df, res, calls)"
  shows "outlier_selection df
           = map fst (filter (\<lambda>(n, s). dtype_of s \<in> {Int64, Float64}
                                        \<and> card (set (cells s)) > 10) df)
       \<and> dataframe_summary res
           = (if outlier_selection df = [] then None
              else Some (describe pd
                     (filter (\<lambda>(n, s). dtype_of s \<in> {Int64, Float64}
                                        \<and> card (set (cells s)) > 10) df)))
       \<and> (\<forall>n s. (n, s) \<in> set df \<longrightarrow>
            (n \<in> set (outlier_selection df)
               \<longleftrightarrow> dtype_of s \<in> {Int64, Float64} \<and> card (set (cells s)) > 10))
       \<and> (\<forall>n xs. (n, Int64S xs) \<in> set df \<and> set xs \<subseteq> {0, 1} \<longrightarrow>
            n \<notin> set (outlier_selection df))
       \<and> (\<forall>n s. (n, s) \<in> set df \<and> dtype_of s \<in> {Int64, Float64}
              \<and> card (set (cells s)) \<ge> 11 \<longrightarrow> n \<in> set (outlier_selection df))"
proof -
  from assms(2) have df: "df = clean exceptions df0"
    and res: "dataframe_summary res = summary pd df (outlier_selection df)"
    by (auto simp: analyze_and_clean_excel_file_eq)
  have d: "distinct (columns df)"
    unfolding df using assms(1) by (rule distinct_columns_clean)
  have sel: "outlier_selection df = columns (selected df)"
    by (rule outlier_selection_eq [OF d])
  have "outlier_selection df
           = map fst (filter (\<lambda>(n, s). dtype_of s \<in> {Int64, Float64}
                                        \<and> card (set (cells s)) > 10) df)"
    by (simp only: sel columns_def selected_def)
  moreover have "dataframe_summary res
           = (if outlier_selection df = [] then None
              else Some (describe pd
                     (filter (\<lambda>(n, s). dtype_of s \<in> {Int64, Float64}
                                        \<and> card (set (cells s)) > 10) df)))"
    by (simp only: res summary_eq [OF d] selected_def)
  moreover have iff: "n \<in> set (outlier_selection df)
               \<longleftrightarrow> dtype_of s \<in> {Int64, Float64} \<and> card (set (cells s)) > 10"
    if "(n, s) \<in> set df" for n s
    unfolding sel by (rule selected_label_unique [OF d that])
  moreover have "n \<notin> set (outlier_selection df)"
    if "(n, Int64S xs) \<in> set df \<and> set xs \<subseteq> {0, 1}" for n xs
  proof -
    from that have "card (set (cells (Int64S xs :: 'a series))) \<le> 2"
      using card_cells_two_ints by blast
    with that iff [of n "Int64S xs"] show ?thesis by simp
  qed
  moreover have "n \<in> set (outlier_selection df)"
    if "(n, s) \<in> set df \<and> dtype_of s \<in> {Int64, Float64} \<and> card (set (cells s)) \<ge> 11"
    for n s
    using that iff [of n s] by simp
  ultimately show ?thesis by blast
qed

theorem outlier_selection_cardinality_witness:
  "\<forall>pd :: (real, unit) pandas.
     outlier_selection (fst (analyze_and_clean_excel_file pd default_exceptions
        [(''Flag'', Int64S [0, 1, 0, 1, 0, 1, 0, 1, 0, 1, 0]),
         (''Score'', Int64S [0, 1, 2, 3, 4, 5, 6, 7, 8, 9, 10])])) = [''score'']
   \<and> dataframe_summary (fst (snd (analyze_and_clean_excel_file pd default_exceptions
        [(''Flag'', Int64S [0, 1, 0, 1, 0, 1, 0, 1, 0, 1, 0]),
         (''Score'', Int64S [0, 1, 2, 3, 4, 5, 6, 7, 8, 9, 10])])))
     = Some (describe pd [(''score'', Int64S [0, 1, 2, 3, 4, 5, 6, 7, 8, 9, 10])])"
proof
  fix pd :: "(real, unit) pandas"
  let ?input = "[(''Flag'', Int64S [0, 1, 0, 1, 0, 1, 0, 1, 0, 1, 0]),
         (''Score'', Int64S [0, 1, 2, 3, 4, 5, 6, 7, 8, 9, 10])] :: real dataframe"
  let ?cleaned = "[(''flag'', Int64S [0, 1, 0, 1, 0, 1, 0, 1, 0, 1, 0]),
         (''score'', Int64S [0, 1, 2, 3, 4, 5, 6, 7, 8, 9, 10])] :: real dataframe"
  obtain df res calls where
    r: "analyze_and_clean_excel_file pd default_exceptions ?input = (df, res, calls)"
    by (cases "analyze_and_clean_excel_file pd default_exceptions ?input")
  have s: "snake_case ''Flag'' = ''flag''" "snake_case ''Score'' = ''score''"
    by code_simp+
  have names: "format_column_names default_exceptions (columns ?input) = [''flag'', ''score'']"
    by (simp add: columns_def default_exceptions_def format_column_names_def
        new_col_name_def s)
  have d: "distinct (format_column_names default_exceptions (columns ?input))"
    unfolding names by simp
  have "clean default_exceptions ?input = ?cleaned"
    by (simp add: clean_map [OF d] format_columns_def names set_columns_def)
  with r have df: "df = ?cleaned"
    by (simp add: analyze_and_clean_excel_file_eq)
  have c0: "card (set (cells (Int64S [0, 1, 0, 1, 0, 1, 0, 1, 0, 1, 0] :: real series))) = 2"
    by (simp add: card_insert_if)
  have c1: "card (set (cells (Int64S [0, 1, 2, 3, 4, 5, 6, 7, 8, 9, 10] :: real series))) = 11"
    by (simp add: card_insert_if)
  have f: "filter (\<lambda>(n, s). dtype_of s \<in> {Int64, Float64} \<and> card (set (cells s)) > 10) ?cleaned
           = [(''score'', Int64S [0, 1, 2, 3, 4, 5, 6, 7, 8, 9, 10])]"
    by (simp only: filter.simps split_conv c0 c1) simp
  note t = outlier_selection_cardinality [OF d r, unfolded df f]
  from t have "outlier_selection ?cleaned = [''score'']"
    by simp
  moreover from t this have "dataframe_summary res
     = Some (describe pd [(''score'', Int64S [0, 1, 2, 3, 4, 5, 6, 7, 8, 9, 10])])"
    by simp
  ultimately show "outlier_selection (fst (analyze_and_clean_excel_file pd default_exceptions ?input))
       = [''score'']
   \<and> dataframe_summary (fst (snd (analyze_and_clean_excel_file pd default_exceptions ?input)))
     = Some (describe pd [(''score'', Int64S [0, 1, 2, 3, 4, 5, 6, 7, 8, 9, 10])])"
    using r df by simp
qed

subsection \<open>Plotting requests and titles\<close>

lemma box_plot_eq:
  assumes "distinct (columns df)"
  shows "box_plot df =
     (if columns (select_dtypes [Int64, Float64] df) = [] then ([], None, [])
      else (columns (selected df),
            Some (''Box plot of data values for '' @ join '', '' (columns (selected df))),
            [Boxplot (map snd (selected df)),
             Title (''Box plot of data values for '' @ join '', '' (columns (selected df))),
             Show]))"
  by (simp add: box_plot_def Let_def more_than_10_unique_eq [OF assms]
      getitems_selected [OF assms])

lemma dist_calls_eq:
  assumes "distinct (columns df)" and "set sel \<subseteq> set df"
  shows "concat (map (\<lambda>col. case map_of df col of
                        Some s \<Rightarrow> [Distplot s, Title (''Distribution of '' @ col), Show]
                      | None \<Rightarrow> []) (columns sel))
         = concat (map (\<lambda>(n, s). [Distplot s, Title (''Distribution of '' @ n), Show]) sel)"
  using assms(2)
proof (induction sel)
  case Nil
  show ?case by (simp add: columns_def)
next
  case (Cons c sel)
  obtain n s where c: "c = (n, s)" by (cases c)
  with Cons.prems have "map_of df n = Some s"
    using map_of_column [OF assms(1)] by simp
  moreover from Cons have "concat (map (\<lambda>col. case map_of df col of
                        Some s \<Rightarrow> [Distplot s, Title (''Distribution of '' @ col), Show]
                      | None \<Rightarrow> []) (columns sel))
         = concat (map (\<lambda>(n, s). [Distplot s, Title (''Distribution of '' @ n), Show]) sel)"
    by simp
  ultimately show ?case
    by (simp add: columns_def c)
qed

lemma dist_plots_eq:
  assumes "distinct (columns df)"
  shows "dist_plots df (columns (selected df)) =
     (if columns (selected df) = [] then (None, [])
      else (Some ''Distribution plots for numerical columns'',
            concat (map (\<lambda>(n, s). [Distplot s, Title (''Distribution of '' @ n), Show])
                        (selected df))))"
proof -
  have "set (selected df) \<subseteq> set df" by (auto simp: selected_def)
  from dist_calls_eq [OF assms this] show ?thesis
    by (simp add: dist_plots_def)
qed

lemma selected_numeric:
  "columns (selected df) \<noteq> [] \<Longrightarrow> columns (select_dtypes [Int64, Float64] df) \<noteq> []"
  by (auto simp: columns_def selected_def select_dtypes_def filter_empty_conv)

text \<open>
  Claim C10. With distinct labels and a selection that is not empty, the
  \<^verbatim>\<open>dist_plots_title\<close> entry is the fixed text, whatever the selection. The requests
  are the box plot of the selected columns with its title, then for each selected column,
  in order, its distribution plot with the title \<^verbatim>\<open>Distribution of\<close> and the label.
  No text entry of the results is such a per-column title.
\<close>

theorem dist_plots_title_fixed:
  assumes "distinct (format_column_names exceptions (columns df0))"
    and "analyze_and_clean_excel_file pd exceptions df0 = (df, res, calls)"
    and "outlier_selection df \<noteq> []"
  shows "dist_plots_title res = Some ''Distribution plots for numerical columns''
       \<and> calls =
           [Boxplot (map snd (selected df)),
            Title (''Box plot of data values for '' @ join '', '' (outlier_selection df)),
            Show]
           @ concat (map (\<lambda>(n, s). [Distplot s, Title (''Distribution of '' @ n), Show])
                         (selected df))
       \<and> outlier_selection df = map fst (selected df)
       \<and> (\<forall>col. dist_plots_title res \<noteq> Some (''Distribution of '' @ col)
              \<and> box_plot_title res \<noteq> Some (''Distribution of '' @ col)
              \<and> missing_values_warning res \<noteq> Some (''Distribution of '' @ col)
              \<and> duplicates_warning res \<noteq> Some (''Distribution of '' @ col)
              \<and> data_types res \<noteq> ''Distribution of '' @ col)"
proof -
  from assms(2) have df: "df = clean exceptions df0"
    by (auto simp: analyze_and_clean_excel_file_eq)
  have d: "distinct (columns df)"
    unfolding df using assms(1) by (rule distinct_columns_clean)
  have sel: "outlier_selection df = columns (selected df)"
    by (rule outlier_selection_eq [OF d])
  with assms(3) have ne: "columns (selected df) \<noteq> []" by simp
  then have num: "columns (select_dtypes [Int64, Float64] df) \<noteq> []"
    by (rule selected_numeric)
  from assms(2) have
    title: "dist_plots_title res = fst (dist_plots df (outlier_selection df))" and
    box: "box_plot_title res = fst (snd (box_plot df))" and
    mv: "missing_values_warning res = check_missing_values pd (format_columns exceptions df0)" and
    dup: "duplicates_warning res = check_duplicates (format_columns exceptions df0)" and
    dt: "data_types res = check_data_types pd (format_columns exceptions df0)" and
    calls: "calls = snd (snd (box_plot df)) @ snd (dist_plots df (outlier_selection df))"
    by (auto simp: analyze_and_clean_excel_file_eq)
  have t: "dist_plots_title res = Some ''Distribution plots for numerical columns''"
    using ne by (simp add: title sel dist_plots_eq [OF d])
  have b: "box_plot_title res
           = Some (''Box plot of data values for '' @ join '', '' (columns (selected df)))"
    using num by (simp add: box box_plot_eq [OF d])
  have c: "calls =
           [Boxplot (map snd (selected df)),
            Title (''Box plot of data values for '' @ join '', '' (outlier_selection df)),
            Show]
           @ concat (map (\<lambda>(n, s). [Distplot s, Title (''Distribution of '' @ n), Show])
                         (selected df))"
    using ne num by (simp add: calls sel dist_plots_eq [OF d] box_plot_eq [OF d])
  have other: "missing_values_warning res \<noteq> Some (''Distribution of '' @ col)
      \<and> duplicates_warning res \<noteq> Some (''Distribution of '' @ col)
      \<and> data_types res \<noteq> ''Distribution of '' @ col" for col
    by (simp add: mv dup dt check_missing_values_def check_duplicates_def check_data_types_def)
  from t b c other sel show ?thesis
    by (simp add: columns_def)
qed

text \<open>
  Claim C1 fails on the code for a table that has numeric columns none of which is
  selected: the test on line 79 is made before the filter of line 81, so the box plot is
  requested for no column and its title is kept, while lines 90 and 100 test the filtered
  list. The input has one integer column with the values 0, 1, 0.
\<close>

theorem box_plot_for_empty_selection:
  "outlier_selection (fst (analyze_and_clean_excel_file pd default_exceptions
      [(''flag'', Int64S [0, 1, 0])])) = []
   \<and> box_plot_title (fst (snd (analyze_and_clean_excel_file pd default_exceptions
      [(''flag'', Int64S [0, 1, 0])]))) = Some ''Box plot of data values for ''
   \<and> dist_plots_title (fst (snd (analyze_and_clean_excel_file pd default_exceptions
      [(''flag'', Int64S [0, 1, 0])]))) = None
   \<and> dataframe_summary (fst (snd (analyze_and_clean_excel_file pd default_exceptions
      [(''flag'', Int64S [0, 1, 0])]))) = None
   \<and> snd (snd (analyze_and_clean_excel_file pd default_exceptions
      [(''flag'', Int64S [0, 1, 0])]))
     = [Boxplot [], Title ''Box plot of data values for '', Show]"
proof -
  have s: "snake_case ''flag'' = ''flag''"
    by code_simp
  have names: "format_column_names default_exceptions [''flag''] = [''flag'']"
    by (simp add: default_exceptions_def format_column_names_def new_col_name_def s)
  have c: "clean default_exceptions [(''flag'', Int64S [0, 1, 0])]
           = [(''flag'', Int64S [0, 1, 0])]"
    by (simp add: clean_def format_columns_def columns_def names set_columns_def
        rstrip_string_cols_def select_dtypes_def format_date_cols_def)
  have b: "box_plot [(''flag'', Int64S [0, 1, 0])]
           = ([], Some ''Box plot of data values for '',
              [Boxplot [], Title ''Box plot of data values for '', Show])"
    by (simp add: box_plot_def select_dtypes_def columns_def more_than_10_unique_def
        unique_len_def getitems_def Let_def)
  show ?thesis
    by (simp add: analyze_and_clean_excel_file_eq c b outlier_selection_def dist_plots_def
        summary_def)
qed

theorem dist_plots_title_fixed_witness:
  "\<forall>pd :: (real, unit) pandas.
     dist_plots_title (fst (snd (analyze_and_clean_excel_file pd default_exceptions
        [(''Flag'', Int64S [0, 1, 0, 1, 0, 1, 0, 1, 0, 1, 0]),
         (''Score'', Int64S [0, 1, 2, 3, 4, 5, 6, 7, 8, 9, 10])])))
       = Some ''Distribution plots for numerical columns''
   \<and> snd (snd (analyze_and_clean_excel_file pd default_exceptions
        [(''Flag'', Int64S [0, 1, 0, 1, 0, 1, 0, 1, 0, 1, 0]),
         (''Score'', Int64S [0, 1, 2, 3, 4, 5, 6, 7, 8, 9, 10])]))
       = [Boxplot [Int64S [0, 1, 2, 3, 4, 5, 6, 7, 8, 9, 10]],
          Title ''Box plot of data values for score'', Show,
          Distplot (Int64S [0, 1, 2, 3, 4, 5, 6, 7, 8, 9, 10]),
          Title ''Distribution of score'', Show]"
proof
  fix pd :: "(real, unit) pandas"
  let ?input = "[(''Flag'', Int64S [0, 1, 0, 1, 0, 1, 0, 1, 0, 1, 0]),
         (''Score'', Int64S [0, 1, 2, 3, 4, 5, 6, 7, 8, 9, 10])] :: real dataframe"
  let ?cleaned = "[(''flag'', Int64S [0, 1, 0, 1, 0, 1, 0, 1, 0, 1, 0]),
         (''score'', Int64S [0, 1, 2, 3, 4, 5, 6, 7, 8, 9, 10])] :: real dataframe"
  obtain df res calls where
    r: "analyze_and_clean_excel_file pd default_exceptions ?input = (df, res, calls)"
    by (cases "analyze_and_clean_excel_file pd default_exceptions ?input")
  have s: "snake_case ''Flag'' = ''flag''" "snake_case ''Score'' = ''score''"
    by code_simp+
  have names: "format_column_names default_exceptions (columns ?input) = [''flag'', ''score'']"
    by (simp add: columns_def default_exceptions_def format_column_names_def
        new_col_name_def s)
  have d: "distinct (format_column_names default_exceptions (columns ?input))"
    unfolding names by simp
  have "clean default_exceptions ?input = ?cleaned"
    by (simp add: clean_map [OF d] format_columns_def names set_columns_def)
  with r have df: "df = ?cleaned"
    by (simp add: analyze_and_clean_excel_file_eq)
  have c0: "card (set (cells (Int64S [0, 1, 0, 1, 0, 1, 0, 1, 0, 1, 0] :: real series))) = 2"
    by (simp add: card_insert_if)
  have c1: "card (set (cells (Int64S [0, 1, 2, 3, 4, 5, 6, 7, 8, 9, 10] :: real series))) = 11"
    by (simp add: card_insert_if)
  have f: "selected ?cleaned = [(''score'', Int64S [0, 1, 2, 3, 4, 5, 6, 7, 8, 9, 10])]"
    unfolding selected_def by (simp only: filter.simps split_conv c0 c1) simp
  have dd: "distinct (columns ?cleaned)" by (simp add: columns_def)
  have ne: "outlier_selection df \<noteq> []"
    unfolding df by (simp add: outlier_selection_eq [OF dd] f columns_def)
  note t = dist_plots_title_fixed [OF d r ne, unfolded df f]
  from t have "dist_plots_title res = Some ''Distribution plots for numerical columns''"
    by blast
  moreover from t have "calls = [Boxplot [Int64S [0, 1, 2, 3, 4, 5, 6, 7, 8, 9, 10]],
          Title ''Box plot of data values for score'', Show,
          Distplot (Int64S [0, 1, 2, 3, 4, 5, 6, 7, 8, 9, 10]),
          Title ''Distribution of score'', Show]"
    by simp
  ultimately show "dist_plots_title (fst (snd (analyze_and_clean_excel_file pd default_exceptions ?input)))
       = Some ''Distribution plots for numerical columns''
   \<and> snd (snd (analyze_and_clean_excel_file pd default_exceptions ?input))
       = [Boxplot [Int64S [0, 1, 2, 3, 4, 5, 6, 7, 8, 9, 10]],
          Title ''Box plot of data values for score'', Show,
          Distplot (Int64S [0, 1, 2, 3, 4, 5, 6, 7, 8, 9, 10]),
          Title ''Distribution of score'', Show]"
    using r by simp
qed

subsection \<open>Normalised labels\<close>

lemma is_upper_letters: "is_upper c \<longleftrightarrow> c \<in> set ''ABCDEFGHIJKLMNOPQRSTUVWXYZ''"
  by (cases c) (simp add: is_upper_def)

lemma is_lower_letters: "is_lower c \<longleftrightarrow> c \<in> set ''abcdefghijklmnopqrstuvwxyz''"
  by (cases c) (simp add: is_lower_def)

lemma lower_char_letters:
  "map lower_char ''ABCDEFGHIJKLMNOPQRSTUVWXYZ'' = ''abcdefghijklmnopqrstuvwxyz''"
  by code_simp

lemma lower_char_ascii_other:
  "\<not> is_upper c \<Longrightarrow> (of_char c :: nat) < 128 \<Longrightarrow> lower_char c = c"
  by (auto simp: lower_char_def is_upper_def Let_def)

lemma of_char_lower_char:
  "(of_char (lower_char c) :: nat) =
     (if (65 \<le> (of_char c :: nat) \<and> (of_char c :: nat) \<le> 90)
         \<or> (192 \<le> (of_char c :: nat) \<and> (of_char c :: nat) \<le> 222 \<and> (of_char c :: nat) \<noteq> 215)
      then of_char c + 32 else of_char c)"
  by (auto simp: lower_char_def Let_def)

lemma lower_char_space: "lower_char c = CHR '' '' \<longleftrightarrow> c = CHR '' ''"
proof
  assume "lower_char c = CHR '' ''"
  then have "(of_char (lower_char c) :: nat) = 32" by simp
  then have "(of_char c :: nat) = 32"
    by (simp add: of_char_lower_char split: if_splits)
  then have "(of_char c :: nat) = of_char CHR '' ''" by simp
  then show "c = CHR '' ''" by (simp only: of_char_eq_iff)
next
  assume "c = CHR '' ''"
  then show "lower_char c = CHR '' ''" by (simp add: lower_char_def)
qed

lemma upt_0_Suc: "[0..<Suc n] = 0 # map Suc [0..<n]"
  by (simp only: upt_conv_Cons [OF zero_less_Suc] map_Suc_upt)

lemma re_sub_tail_positions:
  "re_sub_tail cs =
     concat (map (\<lambda>k. (if is_upper (cs ! k) \<and> Suc k < length cs \<and> is_lower (cs ! Suc k)
                          then ''_'' else []) @ [cs ! k]) [0..<length cs])"
proof (induction cs rule: re_sub_tail.induct)
  case (1 c d cs)
  have "[0..<length (c # d # cs)] = 0 # map Suc [0..<length (d # cs)]"
    by (simp only: length_Cons upt_0_Suc)
  then show ?case
    using "1.IH" by (simp add: comp_def del: upt_Suc)
qed simp_all

lemma re_sub_positions:
  "re_sub s =
     concat (map (\<lambda>k. (if 0 < k \<and> is_upper (s ! k) \<and> Suc k < length s \<and> is_lower (s ! Suc k)
                          then ''_'' else []) @ [s ! k]) [0..<length s])"
proof (cases s)
  case Nil
  then show ?thesis by (simp add: re_sub_def)
next
  case (Cons c cs)
  have "[0..<length (c # cs)] = 0 # map Suc [0..<length cs]"
    by (simp only: length_Cons upt_0_Suc)
  then show ?thesis
    unfolding Cons by (simp add: re_sub_def re_sub_tail_positions comp_def del: upt_Suc)
qed

lemma snake_case_positions:
  "snake_case s =
     concat (map (\<lambda>k. (if 0 < k \<and> is_upper (s ! k) \<and> Suc k < length s \<and> is_lower (s ! Suc k)
                          then ''_'' else [])
                       @ [if s ! k = CHR '' '' then CHR ''_'' else lower_char (s ! k)])
                 [0..<length s])"
proof -
  have u: "lower_char CHR ''_'' = CHR ''_''"
    by (simp add: lower_char_def)
  have "(if lower_char c = CHR '' '' then CHR ''_'' else lower_char c)
        = (if c = CHR '' '' then CHR ''_'' else lower_char c)" for c
    by (simp add: lower_char_space)
  then show ?thesis
    by (simp add: snake_case_def replace_spaces_def lower_def re_sub_positions map_concat
        comp_def u if_distrib [of "map _"] cong: if_cong)
qed

text \<open>
  Claim C4, as stated, fails in two places. First, the first matching rule does not always
  win: with the rules \<^verbatim>\<open>[('A','B'), ('A','C'), ('B','C')]\<close> the column \<^verbatim>\<open>A\<close> takes
  the target \<^verbatim>\<open>B\<close> of its first matching rule on line 37, and the second pass (lines
  43--46) renames \<^verbatim>\<open>B\<close> to \<^verbatim>\<open>C\<close>. Second, the normalisation of line 39 puts no
  separator before a space, it replaces the space: \<^verbatim>\<open>User Name\<close> becomes
  \<^verbatim>\<open>user__name\<close>, with one underscore for the capital \<^verbatim>\<open>N\<close> and one in place of the
  space. A capital starts a word for it only when a lower-case letter follows:
  \<^verbatim>\<open>userID\<close> becomes \<^verbatim>\<open>userid\<close>.
\<close>

theorem first_rule_wins_counterexample:
  "format_column_names [(''A'', ''B''), (''A'', ''C''), (''B'', ''C'')] [''A''] = [''C'']
   \<and> format_column_names [(''A'', ''B''), (''A'', ''C''), (''B'', ''C'')] [''A''] \<noteq> [''B'']
   \<and> format_column_names [(''EXAMPLEID'', ''example_id'')] [''User Name''] = [''user__name'']
   \<and> CHR '' '' \<notin> set (snake_case ''User Name'')
   \<and> format_column_names [(''EXAMPLEID'', ''example_id'')] [''userID''] = [''userid'']"
  by code_simp

text \<open>
  Claim C4, amended. Under the rules \<^verbatim>\<open>[('EXAMPLEID','example_id')]\<close> a column named
  \<^verbatim>\<open>EXAMPLEID\<close> is renamed to \<^verbatim>\<open>example_id\<close> and a column named \<^verbatim>\<open>UserId\<close> to
  \<^verbatim>\<open>user_id\<close>. For any rules, a label that is no rule's source is normalised: character
  by character, an underscore is put before a capital \<^verbatim>\<open>A\<close>--\<^verbatim>\<open>Z\<close> that is not first and
  is followed by a lower-case \<^verbatim>\<open>a\<close>--\<^verbatim>\<open>z\<close>, a space becomes an underscore and every
  other character is lower-cased. A label that is a rule's source takes the target of the
  first rule with that source. The second pass is then applied to the new label, so the new
  label is final whenever it is not itself the source of a rule.
\<close>

theorem rename_rules:
  "(\<forall>i<length cols.
      (cols ! i = ''EXAMPLEID'' \<longrightarrow>
         format_column_names [(''EXAMPLEID'', ''example_id'')] cols ! i = ''example_id'')
    \<and> (cols ! i = ''UserId'' \<longrightarrow>
         format_column_names [(''EXAMPLEID'', ''example_id'')] cols ! i = ''user_id'')
    \<and> (\<forall>u. cols ! i \<notin> fst ` set exceptions
            \<and> u = concat (map (\<lambda>k. (if 0 < k \<and> is_upper (cols ! i ! k) \<and> Suc k < length (cols ! i)
                                         \<and> is_lower (cols ! i ! Suc k)
                                      then ''_'' else [])
                                     @ [if cols ! i ! k = CHR '' '' then CHR ''_''
                                        else lower_char (cols ! i ! k)])
                               [0..<length (cols ! i)]) \<longrightarrow>
         format_column_names exceptions cols ! i = rename_label exceptions u
         \<and> (u \<notin> fst ` set exceptions \<longrightarrow> format_column_names exceptions cols ! i = u))
    \<and> (\<forall>pre t post. exceptions = pre @ (cols ! i, t) # post \<and> cols ! i \<notin> fst ` set pre \<longrightarrow>
         format_column_names exceptions cols ! i = rename_label exceptions t
         \<and> (t \<notin> fst ` set exceptions \<longrightarrow> format_column_names exceptions cols ! i = t)))
   \<and> (\<forall>c. is_upper c \<longleftrightarrow> c \<in> set ''ABCDEFGHIJKLMNOPQRSTUVWXYZ'')
   \<and> (\<forall>c. is_lower c \<longleftrightarrow> c \<in> set ''abcdefghijklmnopqrstuvwxyz'')
   \<and> map lower_char ''ABCDEFGHIJKLMNOPQRSTUVWXYZ'' = ''abcdefghijklmnopqrstuvwxyz''
   \<and> (\<forall>c. \<not> is_upper c \<and> (of_char c :: nat) < 128 \<longrightarrow> lower_char c = c)
   \<and> format_column_names [(''EXAMPLEID'', ''example_id'')]
        [''User Name'', ''userID'', ''HTTPServer'', ''first name'', ''EXAMPLEID'']
      = [''user__name'', ''userid'', ''http_server'', ''first_name'', ''example_id'']
   \<and> format_column_names [(''A'', ''B''), (''A'', ''C'')] [''A''] = [''B'']
   \<and> format_column_names [(''A'', ''B''), (''B'', ''C'')] [''A'', ''B'', ''D''] = [''C'', ''C'', ''d'']"
proof -
  have per_label: "(cols ! i = ''EXAMPLEID'' \<longrightarrow>
         format_column_names [(''EXAMPLEID'', ''example_id'')] cols ! i = ''example_id'')
    \<and> (cols ! i = ''UserId'' \<longrightarrow>
         format_column_names [(''EXAMPLEID'', ''example_id'')] cols ! i = ''user_id'')
    \<and> (\<forall>u. cols ! i \<notin> fst ` set exceptions
            \<and> u = concat (map (\<lambda>k. (if 0 < k \<and> is_upper (cols ! i ! k) \<and> Suc k < length (cols ! i)
                                         \<and> is_lower (cols ! i ! Suc k)
                                      then ''_'' else [])
                                     @ [if cols ! i ! k = CHR '' '' then CHR ''_''
                                        else lower_char (cols ! i ! k)])
                               [0..<length (cols ! i)]) \<longrightarrow>
         format_column_names exceptions cols ! i = rename_label exceptions u
         \<and> (u \<notin> fst ` set exceptions \<longrightarrow> format_column_names exceptions cols ! i = u))
    \<and> (\<forall>pre t post. exceptions = pre @ (cols ! i, t) # post \<and> cols ! i \<notin> fst ` set pre \<longrightarrow>
         format_column_names exceptions cols ! i = rename_label exceptions t
         \<and> (t \<notin> fst ` set exceptions \<longrightarrow> format_column_names exceptions cols ! i = t))"
    if i: "i < length cols" for i
  proof (intro allI impI conjI)
    {
      assume "cols ! i = ''EXAMPLEID''"
      with i show "format_column_names [(''EXAMPLEID'', ''example_id'')] cols ! i = ''example_id''"
        by (simp add: format_column_names_nth new_col_name_def)
    }
    {
      assume "cols ! i = ''UserId''"
      with i show "format_column_names [(''EXAMPLEID'', ''example_id'')] cols ! i = ''user_id''"
        by (simp add: format_column_names_nth new_col_name_def snake_case_UserId)
    }
    {
      fix u
      assume a: "cols ! i \<notin> fst ` set exceptions
            \<and> u = concat (map (\<lambda>k. (if 0 < k \<and> is_upper (cols ! i ! k) \<and> Suc k < length (cols ! i)
                                         \<and> is_lower (cols ! i ! Suc k)
                                      then ''_'' else [])
                                     @ [if cols ! i ! k = CHR '' '' then CHR ''_''
                                        else lower_char (cols ! i ! k)])
                               [0..<length (cols ! i)])"
      then have u: "u = snake_case (cols ! i)"
        by (simp only: snake_case_positions)
      with a i show r: "format_column_names exceptions cols ! i = rename_label exceptions u"
        by (simp add: format_column_names_nth new_col_name_other)
      assume "u \<notin> fst ` set exceptions"
      with r show "format_column_names exceptions cols ! i = u"
        by (simp add: rename_label_other)
    }
    {
      fix pre t post
      assume a: "exceptions = pre @ (cols ! i, t) # post \<and> cols ! i \<notin> fst ` set pre"
      then have n: "new_col_name exceptions (cols ! i) = t"
        using new_col_name_first [of exceptions pre "cols ! i" t post] by blast
      with i show r: "format_column_names exceptions cols ! i = rename_label exceptions t"
        by (simp add: format_column_names_nth)
      assume "t \<notin> fst ` set exceptions"
      with r show "format_column_names exceptions cols ! i = t"
        by (simp add: rename_label_other)
    }
  qed
  have e1: "format_column_names [(''EXAMPLEID'', ''example_id'')]
        [''User Name'', ''userID'', ''HTTPServer'', ''first name'', ''EXAMPLEID'']
      = [''user__name'', ''userid'', ''http_server'', ''first_name'', ''example_id'']"
    by code_simp
  have e2: "format_column_names [(''A'', ''B''), (''A'', ''C'')] [''A''] = [''B'']"
    by code_simp
  have e3: "format_column_names [(''A'', ''B''), (''B'', ''C'')] [''A'', ''B'', ''D'']
            = [''C'', ''C'', ''d'']"
    by code_simp
  from per_label e1 e2 e3 show ?thesis
    using is_upper_letters is_lower_letters lower_char_letters lower_char_ascii_other
    by blast
qed

theorem rename_rules_witness:
  "format_column_names [(''EXAMPLEID'', ''example_id'')] [''EXAMPLEID'', ''UserId'']
     = [''example_id'', ''user_id'']
   \<and> format_column_names [(''A'', ''B''), (''A'', ''C'')] [''x'', ''A''] ! 1 = ''B''
   \<and> format_column_names [(''EXAMPLEID'', ''example_id'')] [''User Name''] ! 0 = ''user__name''"
proof -
  have l: "length (format_column_names [(''EXAMPLEID'', ''example_id'')] [''EXAMPLEID'', ''UserId'']) = 2"
    by (simp add: length_format_column_names)
  note r1 = rename_rules [of "[''EXAMPLEID'', ''UserId'']" "[]", THEN conjunct1, rule_format]
  have a: "format_column_names [(''EXAMPLEID'', ''example_id'')] [''EXAMPLEID'', ''UserId''] ! 0
             = ''example_id''"
    using r1 [of 0] by simp
  have b: "format_column_names [(''EXAMPLEID'', ''example_id'')] [''EXAMPLEID'', ''UserId''] ! 1
             = ''user_id''"
    using r1 [of 1] by simp
  note r2 = rename_rules [of "[''x'', ''A'']" "[(''A'', ''B''), (''A'', ''C'')]",
      THEN conjunct1, THEN spec, of 1, THEN mp, THEN conjunct2, THEN conjunct2, THEN conjunct2,
      THEN spec, THEN spec, THEN spec, of "[]" "''B''" "[(''A'', ''C'')]"]
  have c: "format_column_names [(''A'', ''B''), (''A'', ''C'')] [''x'', ''A''] ! 1 = ''B''"
    using r2 by simp
  let ?c = "[''User Name''] ! (0::nat)"
  have z: "0 < length [''User Name'']" by simp
  have n: "?c \<notin> fst ` set [(''EXAMPLEID'', ''example_id'')]" by simp
  have m: "''user__name'' \<notin> fst ` set [(''EXAMPLEID'', ''example_id'')]" by simp
  have u: "''user__name''
           = concat (map (\<lambda>k. (if 0 < k \<and> is_upper (?c ! k) \<and> Suc k < length ?c
                                    \<and> is_lower (?c ! Suc k)
                                 then ''_'' else [])
                                @ [if ?c ! k = CHR '' '' then CHR ''_'' else lower_char (?c ! k)])
                         [0..<length ?c])"
    by code_simp
  note r3 = rename_rules [of "[''User Name'']" "[(''EXAMPLEID'', ''example_id'')]",
      THEN conjunct1, THEN spec, of 0, THEN mp, OF z, THEN conjunct2, THEN conjunct2,
      THEN conjunct1, THEN spec, of "''user__name''", THEN mp, OF conjI [OF n u],
      THEN conjunct2, THEN mp, OF m]
  have e: "format_column_names [(''EXAMPLEID'', ''example_id'')] [''User Name''] ! 0 = ''user__name''"
    by (rule r3)
  from l a b c e show ?thesis
    by (simp add: list_eq_iff_nth_eq nth_Cons' less_Suc_eq numeral_2_eq_2)
qed

subsection \<open>Equal rows\<close>

lemma cells_nth_eq:
  assumes "j < series_len s" and "i < series_len s"
  shows "(cells s ! j = cells s ! i) =
     (case s of
        ObjectS xs \<Rightarrow> xs ! j = xs ! i
      | Int64S xs \<Rightarrow> xs ! j = xs ! i
      | Float64S xs \<Rightarrow> xs ! j = xs ! i
      | DatetimeS xs \<Rightarrow> xs ! j = xs ! i
      | BoolS xs \<Rightarrow> xs ! j = xs ! i)"
  using assms by (cases s) (simp_all add: series_len_def)

lemma row_eq_same_row:
  assumes "wf_table df" and "j < nrows df" and "i < nrows df"
  shows "(row df j = row df i) = same_row df j i"
proof -
  have len: "series_len (snd c) = nrows df" if "c \<in> set df" for c
    using assms(1) that by (simp add: wf_table_def list_all_iff)
  have "(row df j = row df i) = (\<forall>c \<in> set df. cells (snd c) ! j = cells (snd c) ! i)"
    by (simp add: row_def split_def)
  also have "\<dots> = same_row df j i"
    unfolding same_row_def
    by (rule ball_cong) (simp_all add: cells_nth_eq len assms(2,3))
  finally show ?thesis .
qed

lemma duplicates_same_row:
  assumes "wf_table df"
  shows "duplicates df = card {i. i < nrows df \<and> (\<exists>j<i. same_row df j i)}"
proof -
  have "{i. i < nrows df \<and> (\<exists>j<i. row df j = row df i)}
        = {i. i < nrows df \<and> (\<exists>j<i. same_row df j i)}"
    using row_eq_same_row [OF assms] by (auto simp: less_trans)
  then show ?thesis
    by (simp only: duplicates_card)
qed

text \<open>
  Claim C7. For a well-formed table, the duplicate count is the number of rows that agree
  in every column with an earlier row. The duplicate entry of the results is the warning
  with that count in decimal when the count is positive and absent when it is zero. When
  exactly one pair of rows is equal, as in a table whose two rows are identical, the count
  is 1.
\<close>

theorem duplicate_rows_counted:
  assumes "distinct (format_column_names exceptions (columns df0))"
    and "wf_table df0"
    and "analyze_and_clean_excel_file pd exceptions df0 = (df, res, calls)"
  shows "duplicates (format_columns exceptions df0)
           = card {i. i < nrows df0 \<and> (\<exists>j<i. same_row df0 j i)}
       \<and> duplicates_warning res =
           (if card {i. i < nrows df0 \<and> (\<exists>j<i. same_row df0 j i)} > 0
            then Some (''Warning: there are ''
                       @ str_nat (card {i. i < nrows df0 \<and> (\<exists>j<i. same_row df0 j i)})
                       @ '' duplicate rows in the dataset.'')
            else None)
       \<and> (\<forall>a b. a < b \<and> b < nrows df0
              \<and> (\<forall>i j. j < i \<and> i < nrows df0 \<longrightarrow> same_row df0 j i = (j = a \<and> i = b))
            \<longrightarrow> card {i. i < nrows df0 \<and> (\<exists>j<i. same_row df0 j i)} = 1
              \<and> duplicates_warning res
                  = Some ''Warning: there are 1 duplicate rows in the dataset.'')
       \<and> ((\<forall>i j. j < i \<and> i < nrows df0 \<longrightarrow> \<not> same_row df0 j i)
            \<longrightarrow> duplicates_warning res = None)"
proof -
  define k where "k = card {i. i < nrows df0 \<and> (\<exists>j<i. same_row df0 j i)}"
  have "duplicates df0 = k"
    by (simp only: duplicates_same_row [OF assms(2)] k_def)
  then have count: "duplicates (format_columns exceptions df0) = k"
    by (simp only: duplicates_format_columns)
  from assms(3) have "duplicates_warning res = check_duplicates (format_columns exceptions df0)"
    by (auto simp: analyze_and_clean_excel_file_eq)
  then have warning: "duplicates_warning res =
      (if k > 0 then Some (''Warning: there are '' @ str_nat k @ '' duplicate rows in the dataset.'')
       else None)"
    by (simp add: check_duplicates_def count)
  have one: "k = 1"
    if "a < b \<and> b < nrows df0
        \<and> (\<forall>i j. j < i \<and> i < nrows df0 \<longrightarrow> same_row df0 j i = (j = a \<and> i = b))"
    for a b
  proof -
    from that have "{i. i < nrows df0 \<and> (\<exists>j<i. same_row df0 j i)} = {b}"
      by auto
    then show ?thesis by (simp add: k_def)
  qed
  have "k = 1 \<and> duplicates_warning res = Some ''Warning: there are 1 duplicate rows in the dataset.''"
    if "a < b \<and> b < nrows df0
        \<and> (\<forall>i j. j < i \<and> i < nrows df0 \<longrightarrow> same_row df0 j i = (j = a \<and> i = b))"
    for a b
    using one [OF that] warning by (simp add: str_nat_one)
  moreover have "duplicates_warning res = None"
    if "\<forall>i j. j < i \<and> i < nrows df0 \<longrightarrow> \<not> same_row df0 j i"
  proof -
    from that have "{i. i < nrows df0 \<and> (\<exists>j<i. same_row df0 j i)} = {}"
      by auto
    then have "k = 0" by (simp add: k_def)
    with warning show ?thesis by simp
  qed
  ultimately show ?thesis
    using count warning unfolding k_def by blast
qed

theorem duplicate_rows_counted_witness:
  "\<forall>pd :: (real, unit) pandas.
     duplicates_warning
       (fst (snd (analyze_and_clean_excel_file pd default_exceptions
          [(''k'', Int64S [1, 1, 1, 2]),
           (''v'', ObjectS [Some ''a'', None, Some ''a'', Some ''a''])])))
     = Some ''Warning: there are 1 duplicate rows in the dataset.''
   \<and> duplicates_warning
       (fst (snd (analyze_and_clean_excel_file pd default_exceptions
          [(''k'', Int64S [1, 2]), (''v'', ObjectS [None, None])])))
     = None
   \<and> duplicates_warning
       (fst (snd (analyze_and_clean_excel_file pd default_exceptions
          [(''k'', Int64S [7, 7]), (''v'', ObjectS [None, None])])))
     = Some ''Warning: there are 1 duplicate rows in the dataset.''
   \<and> duplicates_warning
       (fst (snd (analyze_and_clean_excel_file pd default_exceptions
          [(''k'', Int64S [5, 6, 5, 5])])))
     = Some ''Warning: there are 2 duplicate rows in the dataset.''"
proof
  fix pd :: "(real, unit) pandas"
  let ?t1 = "[(''k'', Int64S [1, 1, 1, 2]),
              (''v'', ObjectS [Some ''a'', None, Some ''a'', Some ''a''])] :: real dataframe"
  let ?t2 = "[(''k'', Int64S [1, 2]), (''v'', ObjectS [None, None])] :: real dataframe"
  let ?t3 = "[(''k'', Int64S [7, 7]), (''v'', ObjectS [None, None])] :: real dataframe"
  let ?t4 = "[(''k'', Int64S [5, 6, 5, 5])] :: real dataframe"
  have s: "snake_case ''k'' = ''k''" "snake_case ''v'' = ''v''"
    by code_simp+
  have two: "format_column_names default_exceptions [''k'', ''v''] = [''k'', ''v'']"
    by (simp add: default_exceptions_def format_column_names_def new_col_name_def s)
  have single: "format_column_names default_exceptions [''k''] = [''k'']"
    by (simp add: default_exceptions_def format_column_names_def new_col_name_def s)
  have d1: "distinct (format_column_names default_exceptions (columns ?t1))"
    and d2: "distinct (format_column_names default_exceptions (columns ?t2))"
    and d3: "distinct (format_column_names default_exceptions (columns ?t3))"
    and d4: "distinct (format_column_names default_exceptions (columns ?t4))"
    by (simp_all add: columns_def two single)
  have w1: "wf_table ?t1" and w2: "wf_table ?t2" and w3: "wf_table ?t3" and w4: "wf_table ?t4"
    by (simp_all add: wf_table_def nrows_def series_len_def)
  have n1: "nrows ?t1 = 4" and n2: "nrows ?t2 = 2" and n3: "nrows ?t3 = 2" and n4: "nrows ?t4 = 4"
    by (simp_all add: nrows_def series_len_def)
  obtain df1 res1 calls1 where
    r1: "analyze_and_clean_excel_file pd default_exceptions ?t1 = (df1, res1, calls1)"
    by (cases "analyze_and_clean_excel_file pd default_exceptions ?t1")
  obtain df2 res2 calls2 where
    r2: "analyze_and_clean_excel_file pd default_exceptions ?t2 = (df2, res2, calls2)"
    by (cases "analyze_and_clean_excel_file pd default_exceptions ?t2")
  obtain df3 res3 calls3 where
    r3: "analyze_and_clean_excel_file pd default_exceptions ?t3 = (df3, res3, calls3)"
    by (cases "analyze_and_clean_excel_file pd default_exceptions ?t3")
  obtain df4 res4 calls4 where
    r4: "analyze_and_clean_excel_file pd default_exceptions ?t4 = (df4, res4, calls4)"
    by (cases "analyze_and_clean_excel_file pd default_exceptions ?t4")
  have h1: "(0::nat) < 2 \<and> 2 < nrows ?t1
        \<and> (\<forall>i j. j < i \<and> i < nrows ?t1 \<longrightarrow> same_row ?t1 j i = (j = 0 \<and> i = 2))"
    unfolding n1 by (auto simp: same_row_def less_Suc_eq numeral_eq_Suc)
  have h2: "\<forall>i j. j < i \<and> i < nrows ?t2 \<longrightarrow> \<not> same_row ?t2 j i"
    unfolding n2 by (auto simp: same_row_def less_Suc_eq numeral_eq_Suc)
  have h3: "(0::nat) < 1 \<and> 1 < nrows ?t3
        \<and> (\<forall>i j. j < i \<and> i < nrows ?t3 \<longrightarrow> same_row ?t3 j i = (j = 0 \<and> i = 1))"
    unfolding n3 by (auto simp: same_row_def less_Suc_eq numeral_eq_Suc)
  have "{i. i < nrows ?t4 \<and> (\<exists>j<i. same_row ?t4 j i)} = {2, 3}"
    unfolding n4 by (auto simp: same_row_def less_Suc_eq numeral_eq_Suc)
  then have h4: "card {i. i < nrows ?t4 \<and> (\<exists>j<i. same_row ?t4 j i)} = 2"
    by simp
  have "str_nat 2 = ''2''"
    by (simp add: str_nat_1 digit_def)
  with h4 have e4: "duplicates_warning res4
      = Some ''Warning: there are 2 duplicate rows in the dataset.''"
    using duplicate_rows_counted [OF d4 w4 r4, THEN conjunct2, THEN conjunct1] by simp
  have e1: "duplicates_warning res1 = Some ''Warning: there are 1 duplicate rows in the dataset.''"
    using duplicate_rows_counted [OF d1 w1 r1, THEN conjunct2, THEN conjunct2, THEN conjunct1,
        rule_format, OF h1]
    by simp
  have e2: "duplicates_warning res2 = None"
    using duplicate_rows_counted [OF d2 w2 r2, THEN conjunct2, THEN conjunct2, THEN conjunct2,
        THEN mp, OF h2] .
  have e3: "duplicates_warning res3 = Some ''Warning: there are 1 duplicate rows in the dataset.''"
    using duplicate_rows_counted [OF d3 w3 r3, THEN conjunct2, THEN conjunct2, THEN conjunct1,
        rule_format, OF h3]
    by simp
  from e1 e2 e3 e4 r1 r2 r3 r4
  show "duplicates_warning
       (fst (snd (analyze_and_clean_excel_file pd default_exceptions ?t1)))
     = Some ''Warning: there are 1 duplicate rows in the dataset.''
   \<and> duplicates_warning
       (fst (snd (analyze_and_clean_excel_file pd default_exceptions ?t2)))
     = None
   \<and> duplicates_warning
       (fst (snd (analyze_and_clean_excel_file pd default_exceptions ?t3)))
     = Some ''Warning: there are 1 duplicate rows in the dataset.''
   \<and> duplicates_warning
       (fst (snd (analyze_and_clean_excel_file pd default_exceptions ?t4)))
     = Some ''Warning: there are 2 duplicate rows in the dataset.''"
    by simp
qed

end
